theory Spec2Isabelle
  imports Main
begin

text \<open>
  The scheduling stage of the content-marketing agents: the date helpers, the draft
  dispatcher, the item schedulers of the two channels, the orchestrator and the handler
  of the scheduler agent, the campaign store with its index, and the route that deletes a
  campaign.  Effects are explicit: every function that reads the clock, calls the
  key-value service or calls the publishing service takes the world and returns it.
\<close>

section \<open>Strings\<close>

text \<open>
  Strings are lists of (ASCII) characters.  \<open>trim\<close> and \<open>toLowerCase\<close> are the
  JavaScript string methods on such strings; \<open>string_of_nat\<close> is the decimal rendering
  that a template literal gives a non-negative integer.
\<close>

definition is_space :: "char \<Rightarrow> bool" where
  "is_space c \<longleftrightarrow> c \<in> set [CHR '' '', CHR 0x09, CHR 0x0A, CHR 0x0B, CHR 0x0C, CHR 0x0D]"

definition is_digit :: "char \<Rightarrow> bool" where
  "is_digit c \<longleftrightarrow> 48 \<le> (of_char c :: nat) \<and> (of_char c :: nat) \<le> 57"

definition trim :: "string \<Rightarrow> string" where
  "trim s = rev (dropWhile is_space (rev (dropWhile is_space s)))"

definition lower_char :: "char \<Rightarrow> char" where
  "lower_char c =
     (if 65 \<le> (of_char c :: nat) \<and> (of_char c :: nat) \<le> 90
      then char_of ((of_char c :: nat) + 32) else c)"

definition toLowerCase :: "string \<Rightarrow> string" where
  "toLowerCase s = map lower_char s"

definition digit_char :: "nat \<Rightarrow> char" where
  "digit_char d = char_of (48 + d)"

fun string_of_nat :: "nat \<Rightarrow> string" where
  "string_of_nat n =
     (if n < 10 then [digit_char n]
      else string_of_nat (n div 10) @ [digit_char (n mod 10)])"

declare string_of_nat.simps [simp del]

definition parseInt :: "string \<Rightarrow> nat" where
  \<comment> \<open>\<open>Number.parseInt(ds, 10)\<close> on a string of decimal digits\<close>
  "parseInt ds = foldl (\<lambda>a c. 10 * a + ((of_char c :: nat) - 48)) 0 ds"

section \<open>Dates\<close>

text \<open>
  An instant is a number of milliseconds since the epoch.  A JavaScript \<open>Date\<close>
  object is an instant or the invalid date (time value \<open>NaN\<close>); a time value beyond
  \<open>8.64e15\<close> milliseconds is clipped to the invalid date.  The process runs in UTC, so
  adding a day adds 86400000 milliseconds.

  A date string is either \<open>Iso t\<close>, the rendering of the instant \<open>t\<close> under the pattern
  \<open>yyyy-MM-dd'T'HH:mm:ss.SSS'Z'\<close>, or any other string \<open>Raw s\<close>; \<open>Raw []\<close> is the
  empty string, the only falsy one.  The \<open>Date\<close> constructor reads a rendering back as
  its instant only for the years 1 to 9999 (from \<open>iso_first\<close> to \<open>iso_last\<close>): from the
  year 10000 on the pattern prints five digits of year, which the constructor rejects, and
  before the year 1 it prints the year of the era, so that the constructor reads some other
  date (an oracle of the environment).
\<close>

type_synonym jsdate = "int option"

datatype datestr = Iso int | Raw string

definition day_ms :: int where
  "day_ms = 86400000"

definition max_time :: int where
  "max_time = 8640000000000000"

definition iso_first :: int where
  \<comment> \<open>0001-01-01T00:00:00.000Z\<close>
  "iso_first = - 62135596800000"

definition iso_last :: int where
  \<comment> \<open>9999-12-31T23:59:59.999Z\<close>
  "iso_last = 253402300799999"

definition timeClip :: "int \<Rightarrow> jsdate" where
  "timeClip t = (if \<bar>t\<bar> \<le> max_time then Some t else None)"

definition addDays :: "int \<Rightarrow> nat \<Rightarrow> jsdate" where
  "addDays t n = timeClip (t + int n * day_ms)"

definition addWeeks :: "int \<Rightarrow> nat \<Rightarrow> jsdate" where
  "addWeeks t n = addDays t (n * 7)"

definition falsy :: "datestr \<Rightarrow> bool" where
  "falsy d \<longleftrightarrow> d = Raw []"

section \<open>The environment and the world\<close>

text \<open>
  Everything the program does not control is an oracle of the environment: the clock
  (the value of the \<open>n\<close>-th reading), the faults of the key-value service (whether its
  \<open>n\<close>-th call throws; a call that throws changes nothing), the answer of the publishing
  service to the \<open>n\<close>-th request, the API key of the process environment, the \<open>Date\<close>
  constructor on strings (and on the rendering of an instant before the year 1), the
  calendar function \<open>addMonths\<close> of the date library and the parser of the
  natural-language library.  A call of a service or of a library either returns a value or
  throws.

  The client of the key-value service is not part of the repository, and the repository
  reads the \<open>data\<close> of a result of \<open>get\<close> in three ways: as the stored value itself
  (\<open>result.data\<close>, in the route), through a member (\<open>result.data.json\<close>, in
  \<open>getCampaignIndex\<close>) and through a call (\<open>result.data.json()\<close>, in \<open>getCampaign\<close>).
  The shape of \<open>data\<close> is therefore a parameter of the environment, with the three shapes
  that these readings presuppose.  On each shape one reading gives the stored value; of the
  other two, reading the member of a value that has none gives \<open>undefined\<close>, and calling
  what is not a function throws.
\<close>

datatype 'a attempt = Threw | Returned 'a

datatype kv_client =
    DataIsValue
  | DataJsonMember
  | DataJsonMethod

datatype platform = linkedin | twitter

record request =
  r_content :: string
  r_platform :: platform
  r_threadify :: bool
  r_schedule_date :: datestr
  r_auto_retweet_enabled :: bool
  r_auto_plug_enabled :: bool
  r_api_key :: string

text \<open>
  An answer of the publishing service: the call fails before any answer, the answer is
  not a success (status code, status text, body), or it is a success that carries the
  draft ID.
\<close>

datatype response =
    NetworkFailure
  | HttpError nat string string
  | DraftCreated string

record env =
  clock :: "nat \<Rightarrow> int"
  kv_fault :: "nat \<Rightarrow> bool"
  fetch :: "nat \<Rightarrow> request \<Rightarrow> response"
  TYPEFULLY_API_KEY :: "string option"
  parseDate :: "string \<Rightarrow> jsdate"
  addMonths :: "int \<Rightarrow> nat \<Rightarrow> jsdate"
  parseHumanRelative :: "string \<Rightarrow> int \<Rightarrow> jsdate attempt"
  parseEraYear :: "int \<Rightarrow> jsdate"
  kv_client :: kv_client

datatype campaign_status = planning | researching | writing | scheduling | active | completed

datatype post_status = draft | scheduled | published | failed

record research_results =
  rr_title :: string
  rr_description :: string
  rr_longFormDescription :: string
  rr_tags :: "string list"
  rr_keyInsights :: "string list"
  rr_sources :: "string list"

record post =
  p_platform :: platform
  p_content :: "string option"
  p_media :: "string list option"
  p_scheduledDate :: "datestr option"
  p_typefullyId :: "string option"

record thread =
  t_tweets :: "post list option"
  t_scheduledDate :: "datestr option"
  t_typefullyId :: "string option"

record campaign_content =
  linkedInPosts :: "post option list"
  twitterThreads :: "thread option list"

record outcome =
  o_postId :: string
  o_typefullyId :: string
  o_scheduledDate :: datestr
  o_status :: post_status

record scheduling_info =
  typefullyScheduleId :: "string option"
  scheduledPosts :: "outcome list"

record campaign =
  c_id :: string
  c_topic :: string
  c_description :: "string option"
  c_publishDate :: "string option"
  c_status :: campaign_status
  c_research :: "research_results option"
  c_content :: "campaign_content option"
  c_schedulingInfo :: "scheduling_info option"
  c_createdAt :: datestr
  c_updatedAt :: datestr

record world =
  kv_campaigns :: "string \<Rightarrow> campaign option"
  kv_index :: "string list option"
  kv_ops :: nat
  clock_reads :: nat
  sent :: "request list"

definition now :: "env \<Rightarrow> world \<Rightarrow> int \<times> world" where
  "now E w = (clock E (clock_reads w), w\<lparr>clock_reads := Suc (clock_reads w)\<rparr>)"

section \<open>date-utils: getValidDate, incrementDateByDays\<close>

text \<open>
  Every \<open>new Date()\<close> and every \<open>Date.now()\<close> (inside \<open>isPast\<close>) is one reading
  of the clock.  \<open>getValidDate\<close> reads it for the default date, then for the parser,
  then for the check.  Nothing in its \<open>try\<close> block throws, so its \<open>catch\<close> has no
  branch here.
\<close>

definition in_units :: "string \<Rightarrow> string \<Rightarrow> nat option" where
  \<comment> \<open>the match of \<open>/^in\s+(\d+)\s+UNITs?$/\<close>: the number, if the string matches\<close>
  "in_units unit s =
     (case s of
        i # n # r \<Rightarrow>
          if i = CHR ''i'' \<and> n = CHR ''n'' then
            (let r1 = dropWhile is_space r;
                 ds = takeWhile is_digit r1;
                 r2 = dropWhile is_digit r1;
                 r3 = dropWhile is_space r2
             in if r1 \<noteq> r \<and> ds \<noteq> [] \<and> r3 \<noteq> r2 \<and> (r3 = unit \<or> r3 = unit @ ''s'')
                then Some (parseInt ds) else None)
          else None
      | _ \<Rightarrow> None)"

definition parseRelativeDate :: "env \<Rightarrow> string \<Rightarrow> int \<Rightarrow> jsdate option" where
  "parseRelativeDate E dateStr t =
     (let lower = toLowerCase (trim dateStr) in
      if lower = ''tomorrow'' then Some (addDays t 1)
      else if lower = ''today'' then Some (Some t)
      else if lower = ''next week'' then Some (addWeeks t 1)
      else if lower = ''next month'' then Some (addMonths E t 1)
      else case in_units ''day'' lower of
        Some n \<Rightarrow> Some (addDays t n)
      | None \<Rightarrow>
          (case in_units ''week'' lower of
             Some n \<Rightarrow> Some (addWeeks t n)
           | None \<Rightarrow>
               (case in_units ''month'' lower of
                  Some n \<Rightarrow> Some (addMonths E t n)
                | None \<Rightarrow> None)))"

definition getValidDate :: "env \<Rightarrow> string option \<Rightarrow> bool \<Rightarrow> world \<Rightarrow> datestr \<times> world" where
  "getValidDate E dateStr ensureFuture w =
     (let (t0, w0) = now E w;
          defaultDate = t0 + 7 * day_ms
      in case dateStr of
           None \<Rightarrow> (Iso defaultDate, w0)
         | Some s \<Rightarrow>
             if s = [] then (Iso defaultDate, w0)
             else
               (let (t1, w1) = now E w0;
                    dateObj = (case parseRelativeDate E s t1 of
                                 Some d \<Rightarrow> d
                               | None \<Rightarrow> parseDate E s)
                in case dateObj of
                     None \<Rightarrow> (Iso defaultDate, w1)
                   | Some t \<Rightarrow>
                       if ensureFuture then
                         (let (t2, w2) = now E w1
                          in if t < t2 then (Iso defaultDate, w2) else (Iso t, w2))
                       else (Iso t, w1)))"

text \<open>
  The repository holds \<open>getValidDate\<close> in two variants that differ only in the parser of
  the hint: the one above, with the phrase matcher \<open>parseRelativeDate\<close>, and the one of
  \<open>utils/date-utils.ts\<close>, which asks the natural-language library first and falls back
  to the \<open>Date\<close> constructor when the library throws.
\<close>

definition getValidDate_library ::
  "env \<Rightarrow> string option \<Rightarrow> bool \<Rightarrow> world \<Rightarrow> datestr \<times> world" where
  "getValidDate_library E dateStr ensureFuture w =
     (let (t0, w0) = now E w;
          defaultDate = t0 + 7 * day_ms
      in case dateStr of
           None \<Rightarrow> (Iso defaultDate, w0)
         | Some s \<Rightarrow>
             if s = [] then (Iso defaultDate, w0)
             else
               (let (t1, w1) = now E w0;
                    dateObj = (case parseHumanRelative E s t1 of
                                 Returned d \<Rightarrow> d
                               | Threw \<Rightarrow> parseDate E s)
                in case dateObj of
                     None \<Rightarrow> (Iso defaultDate, w1)
                   | Some t \<Rightarrow>
                       if ensureFuture then
                         (let (t2, w2) = now E w1
                          in if t < t2 then (Iso defaultDate, w2) else (Iso t, w2))
                       else (Iso t, w1)))"

definition newDate :: "env \<Rightarrow> datestr \<Rightarrow> jsdate" where
  \<comment> \<open>\<open>new Date(dateStr)\<close>\<close>
  "newDate E d =
     (case d of
        Iso t \<Rightarrow>
          if iso_last < t then None
          else if t < iso_first then parseEraYear E t
          else Some t
      | Raw s \<Rightarrow> parseDate E s)"

definition incrementDateByDays :: "env \<Rightarrow> datestr \<Rightarrow> nat \<Rightarrow> datestr" where
  "incrementDateByDays E dateStr days =
     (case newDate E dateStr of
        None \<Rightarrow> dateStr
      | Some t \<Rightarrow>
          (case addDays t days of
             None \<Rightarrow> dateStr
           | Some t' \<Rightarrow> Iso t'))"

section \<open>scheduler: the draft dispatcher\<close>

definition date_or_tomorrow :: "env \<Rightarrow> datestr \<Rightarrow> world \<Rightarrow> datestr \<times> world" where
  \<comment> \<open>the expression \<open>d || getValidDate("tomorrow")\<close>\<close>
  "date_or_tomorrow E d w =
     (if falsy d then getValidDate E (Some ''tomorrow'') True w else (d, w))"

definition createTypefullyDraft ::
  "env \<Rightarrow> string \<Rightarrow> platform \<Rightarrow> string \<Rightarrow> datestr \<Rightarrow> bool \<Rightarrow> world \<Rightarrow> string attempt \<times> world" where
  "createTypefullyDraft E content platform apiKey scheduledDate threadify w =
     (let (finalDate, w1) = date_or_tomorrow E scheduledDate w;
          req = \<lparr>r_content = content, r_platform = platform, r_threadify = threadify,
                 r_schedule_date = finalDate, r_auto_retweet_enabled = False,
                 r_auto_plug_enabled = False, r_api_key = apiKey\<rparr>;
          resp = fetch E (length (sent w1)) req;
          w2 = w1\<lparr>sent := sent w1 @ [req]\<rparr>
      in case resp of
           DraftCreated i \<Rightarrow> (Returned i, w2)
         | HttpError code statusText body \<Rightarrow> (Threw, w2)
         | NetworkFailure \<Rightarrow> (Threw, w2))"

section \<open>scheduler: the item schedulers\<close>

text \<open>
  The body of the loop of \<open>scheduleLinkedInPosts\<close> for the post at position \<open>i\<close>: the
  outcome pushed (if any), the post as mutated, and the world afterwards.
\<close>

definition schedule_post ::
  "env \<Rightarrow> string \<Rightarrow> datestr list \<Rightarrow> nat \<Rightarrow> post \<Rightarrow> world \<Rightarrow> outcome option \<times> post \<times> world" where
  "schedule_post E apiKey scheduledDates i p w =
     (let dateIndex = min i (length scheduledDates - 1);
          postDate = scheduledDates ! dateIndex
      in case p_content p of
           None \<Rightarrow> (None, p, w)
         | Some content \<Rightarrow>
             if content = [] then (None, p, w)
             else
               (case createTypefullyDraft E content linkedin apiKey postDate False w of
                  (Returned tid, w1) \<Rightarrow>
                    (let (d, w2) = date_or_tomorrow E postDate w1;
                         (d', w3) = date_or_tomorrow E postDate w2
                     in (Some \<lparr>o_postId = ''linkedin-post-'' @ string_of_nat i, o_typefullyId = tid,
                               o_scheduledDate = d, o_status = scheduled\<rparr>,
                         p\<lparr>p_scheduledDate := Some d', p_typefullyId := Some tid\<rparr>, w3))
                | (Threw, w1) \<Rightarrow>
                    (let (d, w2) = date_or_tomorrow E postDate w1
                     in (Some \<lparr>o_postId = ''linkedin-post-'' @ string_of_nat i, o_typefullyId = [],
                               o_scheduledDate = d, o_status = failed\<rparr>,
                         p, w2))))"

fun linkedin_loop ::
  "env \<Rightarrow> string \<Rightarrow> datestr list \<Rightarrow> nat \<Rightarrow> post option list \<Rightarrow> world
   \<Rightarrow> outcome list \<times> post option list \<times> world" where
  "linkedin_loop E apiKey ds i [] w = ([], [], w)"
| "linkedin_loop E apiKey ds i (None # ps) w =
     (let (os, ps', w') = linkedin_loop E apiKey ds (Suc i) ps w
      in (os, None # ps', w'))"
| "linkedin_loop E apiKey ds i (Some p # ps) w =
     (let (r, p', w1) = schedule_post E apiKey ds i p w;
          (os, ps', w2) = linkedin_loop E apiKey ds (Suc i) ps w1
      in ((case r of None \<Rightarrow> os | Some x \<Rightarrow> x # os), Some p' # ps', w2))"

definition scheduleLinkedInPosts ::
  "env \<Rightarrow> post option list \<Rightarrow> datestr list \<Rightarrow> string \<Rightarrow> world
   \<Rightarrow> outcome list \<times> post option list \<times> world" where
  "scheduleLinkedInPosts E posts scheduledDates apiKey w =
     (if scheduledDates = [] then ([], posts, w)
      else linkedin_loop E apiKey scheduledDates 0 posts w)"

definition join :: "string \<Rightarrow> string list \<Rightarrow> string" where
  "join sep xs = (case xs of [] \<Rightarrow> [] | y # ys \<Rightarrow> y @ concat (map (\<lambda>z. sep @ z) ys))"

definition tweet_text :: "post \<Rightarrow> string" where
  \<comment> \<open>\<open>join\<close> renders a missing content as the empty string\<close>
  "tweet_text p = (case p_content p of None \<Rightarrow> [] | Some c \<Rightarrow> c)"

definition schedule_thread ::
  "env \<Rightarrow> string \<Rightarrow> datestr list \<Rightarrow> nat \<Rightarrow> thread \<Rightarrow> world \<Rightarrow> outcome option \<times> thread \<times> world" where
  "schedule_thread E apiKey scheduledDates i t w =
     (let dateIndex = min i (length scheduledDates - 1);
          postDate = scheduledDates ! dateIndex
      in case t_tweets t of
           None \<Rightarrow> (None, t, w)
         | Some tweets \<Rightarrow>
             if tweets = [] then (None, t, w)
             else
               (let threadContent = join (replicate 4 (CHR 0x0A)) (map tweet_text tweets)
                in case createTypefullyDraft E threadContent twitter apiKey postDate True w of
                  (Returned tid, w1) \<Rightarrow>
                    (let (d, w2) = date_or_tomorrow E postDate w1;
                         (d', w3) = date_or_tomorrow E postDate w2
                     in (Some \<lparr>o_postId = ''twitter-thread-'' @ string_of_nat i, o_typefullyId = tid,
                               o_scheduledDate = d, o_status = scheduled\<rparr>,
                         t\<lparr>t_scheduledDate := Some d', t_typefullyId := Some tid\<rparr>, w3))
                | (Threw, w1) \<Rightarrow>
                    (let (d, w2) = date_or_tomorrow E postDate w1
                     in (Some \<lparr>o_postId = ''twitter-thread-'' @ string_of_nat i, o_typefullyId = [],
                               o_scheduledDate = d, o_status = failed\<rparr>,
                         t, w2))))"

fun twitter_loop ::
  "env \<Rightarrow> string \<Rightarrow> datestr list \<Rightarrow> nat \<Rightarrow> thread option list \<Rightarrow> world
   \<Rightarrow> outcome list \<times> thread option list \<times> world" where
  "twitter_loop E apiKey ds i [] w = ([], [], w)"
| "twitter_loop E apiKey ds i (None # ts) w =
     (let (os, ts', w') = twitter_loop E apiKey ds (Suc i) ts w
      in (os, None # ts', w'))"
| "twitter_loop E apiKey ds i (Some t # ts) w =
     (let (r, t', w1) = schedule_thread E apiKey ds i t w;
          (os, ts', w2) = twitter_loop E apiKey ds (Suc i) ts w1
      in ((case r of None \<Rightarrow> os | Some x \<Rightarrow> x # os), Some t' # ts', w2))"

definition scheduleTwitterThreads ::
  "env \<Rightarrow> thread option list \<Rightarrow> datestr list \<Rightarrow> string \<Rightarrow> world
   \<Rightarrow> outcome list \<times> thread option list \<times> world" where
  "scheduleTwitterThreads E threads scheduledDates apiKey w =
     (if scheduledDates = [] then ([], threads, w)
      else twitter_loop E apiKey scheduledDates 0 threads w)"

section \<open>scheduler: the orchestrator\<close>

text \<open>
  The date loops of \<open>scheduleContent\<close>: \<open>n\<close> dates from the running counter
  \<open>dayIncrement\<close>, and the counter afterwards.
\<close>

fun date_loop :: "env \<Rightarrow> datestr \<Rightarrow> nat \<Rightarrow> nat \<Rightarrow> datestr list \<times> nat" where
  "date_loop E scheduledDate dayIncrement 0 = ([], dayIncrement)"
| "date_loop E scheduledDate dayIncrement (Suc n) =
     (let postDate = incrementDateByDays E scheduledDate dayIncrement;
          (ds, dayIncrement') = date_loop E scheduledDate (Suc dayIncrement) n
      in (postDate # ds, dayIncrement'))"

definition scheduleContent ::
  "env \<Rightarrow> campaign \<Rightarrow> datestr \<Rightarrow> scheduling_info \<Rightarrow> string \<Rightarrow> world
   \<Rightarrow> scheduling_info \<times> campaign \<times> world" where
  "scheduleContent E campaign scheduledDate schedulingInfo apiKey w =
     (case c_content campaign of
        None \<Rightarrow> (schedulingInfo, campaign, w)
      | Some content \<Rightarrow>
          (let dayIncrement = 0;
               (info1, posts1, dayIncrement1, w1) =
                 (if linkedInPosts content \<noteq> [] then
                    (let (linkedInDates, inc) =
                           date_loop E scheduledDate dayIncrement (length (linkedInPosts content));
                         (linkedInResults, posts', w') =
                           scheduleLinkedInPosts E (linkedInPosts content) linkedInDates apiKey w
                     in (schedulingInfo\<lparr>scheduledPosts :=
                                          scheduledPosts schedulingInfo @ linkedInResults\<rparr>,
                         posts', inc, w'))
                  else (schedulingInfo, linkedInPosts content, dayIncrement, w));
               (info2, threads2, w2) =
                 (if twitterThreads content \<noteq> [] then
                    (let (twitterDates, inc) =
                           date_loop E scheduledDate dayIncrement1 (length (twitterThreads content));
                         (twitterResults, threads', w') =
                           scheduleTwitterThreads E (twitterThreads content) twitterDates apiKey w1
                     in (info1\<lparr>scheduledPosts := scheduledPosts info1 @ twitterResults\<rparr>,
                         threads', w'))
                  else (info1, twitterThreads content, w1))
           in (info2,
               campaign\<lparr>c_content :=
                 Some (content\<lparr>linkedInPosts := posts1, twitterThreads := threads2\<rparr>)\<rparr>,
               w2)))"

section \<open>kv-store: the campaign store and its index\<close>

text \<open>
  The key-value service holds the campaign records under their IDs and one index record
  \<open>{campaignIds}\<close>.  Each primitive is one call of the service: it throws when the
  environment says so, and then changes nothing; \<open>get\<close> returns what is stored, or its
  absence (a result whose \<open>data\<close> is \<open>undefined\<close>).  How the \<open>data\<close> of a result
  holds the stored value is the shape of the client.
\<close>

definition kv_tick :: "world \<Rightarrow> world" where
  "kv_tick w = w\<lparr>kv_ops := Suc (kv_ops w)\<rparr>"

definition kv_get_campaign :: "env \<Rightarrow> string \<Rightarrow> world \<Rightarrow> campaign option attempt \<times> world" where
  "kv_get_campaign E key w =
     (if kv_fault E (kv_ops w) then (Threw, kv_tick w)
      else (Returned (kv_campaigns w key), kv_tick w))"

definition kv_set_campaign :: "env \<Rightarrow> string \<Rightarrow> campaign \<Rightarrow> world \<Rightarrow> unit attempt \<times> world" where
  "kv_set_campaign E key c w =
     (if kv_fault E (kv_ops w) then (Threw, kv_tick w)
      else (Returned (), kv_tick (w\<lparr>kv_campaigns := (kv_campaigns w)(key \<mapsto> c)\<rparr>)))"

definition kv_delete_campaign :: "env \<Rightarrow> string \<Rightarrow> world \<Rightarrow> unit attempt \<times> world" where
  "kv_delete_campaign E key w =
     (if kv_fault E (kv_ops w) then (Threw, kv_tick w)
      else (Returned (), kv_tick (w\<lparr>kv_campaigns := (kv_campaigns w)(key := None)\<rparr>)))"

definition kv_get_index :: "env \<Rightarrow> world \<Rightarrow> string list option attempt \<times> world" where
  "kv_get_index E w =
     (if kv_fault E (kv_ops w) then (Threw, kv_tick w)
      else (Returned (kv_index w), kv_tick w))"

definition kv_set_index :: "env \<Rightarrow> string list \<Rightarrow> world \<Rightarrow> unit attempt \<times> world" where
  "kv_set_index E campaignIds w =
     (if kv_fault E (kv_ops w) then (Threw, kv_tick w)
      else (Returned (), kv_tick (w\<lparr>kv_index := Some campaignIds\<rparr>)))"

definition data_value :: "kv_client \<Rightarrow> 'a \<Rightarrow> 'a option" where
  \<comment> \<open>\<open>data\<close> read as the stored value; \<open>None\<close> is a \<open>data\<close> without the members of the value\<close>
  "data_value k v = (if k = DataIsValue then Some v else None)"

definition data_json :: "kv_client \<Rightarrow> 'a \<Rightarrow> 'a option" where
  \<comment> \<open>\<open>data.json\<close> read as the stored value; \<open>None\<close> is \<open>undefined\<close>, or a function\<close>
  "data_json k v = (if k = DataJsonMember then Some v else None)"

definition data_json_call :: "kv_client \<Rightarrow> 'a \<Rightarrow> 'a attempt" where
  \<comment> \<open>\<open>data.json()\<close>; it throws when \<open>data.json\<close> is not a function\<close>
  "data_json_call k v = (if k = DataJsonMethod then Returned v else Threw)"

definition isValidId :: "string \<Rightarrow> bool" where
  "isValidId ident \<longleftrightarrow> ident \<noteq> [] \<and> trim ident \<noteq> []"

definition getCampaignIndex :: "env \<Rightarrow> world \<Rightarrow> string list attempt \<times> world" where
  "getCampaignIndex E w =
     (case kv_get_index E w of
        (Threw, w1) \<Rightarrow> (Threw, w1)
      | (Returned None, w1) \<Rightarrow> (Returned [], w1)
      | (Returned (Some ids), w1) \<Rightarrow>
          (case data_json (kv_client E) ids of
             None \<Rightarrow> (Returned [], w1)
           | Some campaignIds \<Rightarrow> (Returned (filter isValidId campaignIds), w1)))"

definition updateCampaignIndex :: "env \<Rightarrow> string \<Rightarrow> world \<Rightarrow> unit attempt \<times> world" where
  "updateCampaignIndex E campaignId w =
     (if \<not> isValidId campaignId then (Returned (), w)
      else case getCampaignIndex E w of
             (Threw, w1) \<Rightarrow> (Threw, w1)
           | (Returned campaignIds, w1) \<Rightarrow>
               if campaignId \<notin> set campaignIds
               then kv_set_index E (campaignIds @ [campaignId]) w1
               else (Returned (), w1))"

definition getCampaign :: "env \<Rightarrow> string \<Rightarrow> world \<Rightarrow> campaign option \<times> world" where
  "getCampaign E ident w =
     (if \<not> isValidId ident then (None, w)
      else case kv_get_campaign E ident w of
             (Threw, w1) \<Rightarrow> (None, w1)
           | (Returned None, w1) \<Rightarrow> (None, w1)
           | (Returned (Some stored), w1) \<Rightarrow>
               (case data_json_call (kv_client E) stored of
                  Threw \<Rightarrow> (None, w1)
                | Returned campaign \<Rightarrow> (Some campaign, w1)))"

definition saveCampaign :: "env \<Rightarrow> campaign \<Rightarrow> world \<Rightarrow> bool \<times> world" where
  "saveCampaign E campaign w =
     (if \<not> isValidId (c_id campaign) then (False, w)
      else case kv_set_campaign E (c_id campaign) campaign w of
             (Threw, w1) \<Rightarrow> (False, w1)
           | (Returned u, w1) \<Rightarrow>
               (case updateCampaignIndex E (c_id campaign) w1 of
                  (Threw, w2) \<Rightarrow> (False, w2)
                | (Returned u', w2) \<Rightarrow> (True, w2)))"

definition updateCampaignStatus ::
  "env \<Rightarrow> string \<Rightarrow> campaign_status \<Rightarrow> world \<Rightarrow> campaign option \<times> world" where
  "updateCampaignStatus E campaignId st w =
     (case getCampaign E campaignId w of
        (None, w1) \<Rightarrow> (None, w1)
      | (Some campaign, w1) \<Rightarrow>
          (let (t, w2) = now E w1;
               campaign' = campaign\<lparr>c_status := st, c_updatedAt := Iso t\<rparr>;
               (saved, w3) = saveCampaign E campaign' w2
           in (Some campaign', w3)))"

section \<open>scheduler: the handler\<close>

text \<open>
  The functions the handler calls catch what they throw (\<open>getCampaign\<close> and
  \<open>saveCampaign\<close> return \<open>null\<close> and \<open>false\<close>, the item schedulers record a failed
  outcome), so the \<open>catch\<close> of the handler has no branch here.  The campaign that is
  scheduled and saved is the copy read at the start; the two status updates read and save
  their own copies.
\<close>

record scheduler_request =
  sr_campaignId :: string
  sr_content :: campaign_content
  sr_publishDate :: "string option"

datatype scheduler_output =
    SchedulerError string
  | SchedulerSuccess string nat string

definition handler :: "env \<Rightarrow> scheduler_request \<Rightarrow> world \<Rightarrow> scheduler_output \<times> world" where
  "handler E input w =
     (let campaignId = sr_campaignId input;
          publishDate = sr_publishDate input
      in if trim campaignId = [] then (SchedulerError ''Campaign ID is required'', w)
         else
           (case getCampaign E campaignId w of
              (None, w1) \<Rightarrow> (SchedulerError (''Campaign not found with ID: '' @ campaignId), w1)
            | (Some campaign, w1) \<Rightarrow>
                (case c_content campaign of
                   None \<Rightarrow> (SchedulerError ''Campaign has no content to schedule'', w1)
                 | Some content \<Rightarrow>
                     (case TYPEFULLY_API_KEY E of
                        None \<Rightarrow>
                          (SchedulerError ''Missing TYPEFULLY_API_KEY in environment variables'', w1)
                      | Some apiKey \<Rightarrow>
                          if apiKey = [] then
                            (SchedulerError ''Missing TYPEFULLY_API_KEY in environment variables'', w1)
                          else
                            (let (u, w2) = updateCampaignStatus E campaignId scheduling w1;
                                 (scheduledDateString, w3) = getValidDate E publishDate True w2;
                                 schedulingInfo = \<lparr>typefullyScheduleId = None, scheduledPosts = []\<rparr>;
                                 (schedulingInfo', campaign', w4) =
                                   scheduleContent E campaign scheduledDateString schedulingInfo apiKey w3;
                                 (t, w5) = now E w4;
                                 campaign'' = campaign'\<lparr>c_schedulingInfo := Some schedulingInfo',
                                                        c_updatedAt := Iso t\<rparr>;
                                 (saveResult, w6) = saveCampaign E campaign'' w5
                             in if \<not> saveResult then
                                  (SchedulerError ''Failed to save campaign with scheduling info'', w6)
                                else
                                  (let (u', w7) = updateCampaignStatus E campaignId active w6
                                   in (SchedulerSuccess campaignId
                                         (length (scheduledPosts schedulingInfo'))
                                         (''Successfully scheduled ''
                                            @ string_of_nat (length (scheduledPosts schedulingInfo'))
                                            @ '' posts for campaign''),
                                       w7)))))))"

section \<open>api/campaigns: deleting a campaign\<close>

datatype http_response =
    JsonOk string
  | JsonError nat string

definition index_update_attempt :: "env \<Rightarrow> string \<Rightarrow> world \<Rightarrow> bool \<times> world" where
  \<comment> \<open>the body of the retry loop: read the index, filter, write it back\<close>
  "index_update_attempt E ident w =
     (case kv_get_index E w of
        (Threw, w1) \<Rightarrow> (False, w1)
      | (Returned indexData, w1) \<Rightarrow>
          (let campaignIds = (case indexData of
                                None \<Rightarrow> []
                              | Some stored \<Rightarrow>
                                  (case data_value (kv_client E) stored of
                                     None \<Rightarrow> []
                                   | Some ids \<Rightarrow> filter (\<lambda>cid. cid \<noteq> ident) ids))
           in case kv_set_index E campaignIds w1 of
                (Threw, w2) \<Rightarrow> (False, w2)
              | (Returned u, w2) \<Rightarrow> (True, w2)))"

function index_update_loop :: "env \<Rightarrow> string \<Rightarrow> nat \<Rightarrow> nat \<Rightarrow> world \<Rightarrow> bool \<times> world" where
  "index_update_loop E ident maxRetries attempt w =
     (if attempt < maxRetries then
        (case index_update_attempt E ident w of
           (True, w') \<Rightarrow> (True, w')
         | (False, w') \<Rightarrow> index_update_loop E ident maxRetries (Suc attempt) w')
      else (False, w))"
  by pat_completeness auto
termination
  by (relation "measure (\<lambda>(E, ident, maxRetries, attempt, w). maxRetries - attempt)") auto

declare index_update_loop.simps [simp del]

definition route_delete :: "env \<Rightarrow> string \<Rightarrow> world \<Rightarrow> http_response \<times> world" where
  "route_delete E ident w =
     (if trim ident = [] then (JsonError 400 ''Campaign ID is required'', w)
      else case kv_get_campaign E ident w of
             (Threw, w1) \<Rightarrow> (JsonError 500 ''Failed to delete campaign'', w1)
           | (Returned None, w1) \<Rightarrow> (JsonError 404 ''Campaign not found'', w1)
           | (Returned (Some c), w1) \<Rightarrow>
               (let maxRetries = 3;
                    (indexUpdated, w2) = index_update_loop E ident maxRetries 0 w1
                in if \<not> indexUpdated then
                     (JsonError 500 ''Failed to update campaign index'', w2)
                   else
                     (case kv_delete_campaign E ident w2 of
                        (Threw, w3) \<Rightarrow> (JsonError 500 ''Failed to delete campaign'', w3)
                      | (Returned u, w3) \<Rightarrow>
                          (JsonOk (''Campaign '' @ ident @ '' deleted''), w3))))"

section \<open>Saves in flight\<close>

text \<open>
  \<open>saveCampaign\<close> awaits the key-value service three times: the write of the record,
  the read of the index, the write of the index.  Between two awaits another save may
  run.  A save in flight is a task; \<open>save_step\<close> runs it up to its next await, and
  \<open>interleave\<close> runs two tasks under a schedule that says whose turn it is.
\<close>

datatype save_task =
    SaveStart campaign
  | SaveIndexing campaign
  | SaveWriting campaign "string list"
  | SaveDone bool

fun save_step :: "env \<Rightarrow> save_task \<Rightarrow> world \<Rightarrow> save_task \<times> world" where
  "save_step E (SaveStart campaign) w =
     (if \<not> isValidId (c_id campaign) then (SaveDone False, w)
      else case kv_set_campaign E (c_id campaign) campaign w of
             (Threw, w1) \<Rightarrow> (SaveDone False, w1)
           | (Returned u, w1) \<Rightarrow> (SaveIndexing campaign, w1))"
| "save_step E (SaveIndexing campaign) w =
     (if \<not> isValidId (c_id campaign) then (SaveDone True, w)
      else case getCampaignIndex E w of
             (Threw, w1) \<Rightarrow> (SaveDone False, w1)
           | (Returned campaignIds, w1) \<Rightarrow>
               if c_id campaign \<notin> set campaignIds
               then (SaveWriting campaign (campaignIds @ [c_id campaign]), w1)
               else (SaveDone True, w1))"
| "save_step E (SaveWriting campaign campaignIds) w =
     (case kv_set_index E campaignIds w of
        (Threw, w1) \<Rightarrow> (SaveDone False, w1)
      | (Returned u, w1) \<Rightarrow> (SaveDone True, w1))"
| "save_step E (SaveDone b) w = (SaveDone b, w)"

fun interleave ::
  "env \<Rightarrow> bool list \<Rightarrow> save_task \<Rightarrow> save_task \<Rightarrow> world \<Rightarrow> save_task \<times> save_task \<times> world" where
  "interleave E [] a b w = (a, b, w)"
| "interleave E (second # sched) a b w =
     (if second then (let (b', w') = save_step E b w in interleave E sched a b' w')
      else (let (a', w') = save_step E a w in interleave E sched a' b w'))"

section \<open>Vocabulary of the statements\<close>

definition post_has_content :: "post option \<Rightarrow> bool" where
  "post_has_content p =
     (case p of
        None \<Rightarrow> False
      | Some q \<Rightarrow> (case p_content q of None \<Rightarrow> False | Some c \<Rightarrow> c \<noteq> []))"

definition thread_has_tweets :: "thread option \<Rightarrow> bool" where
  "thread_has_tweets t =
     (case t of
        None \<Rightarrow> False
      | Some q \<Rightarrow> (case t_tweets q of None \<Rightarrow> False | Some ts \<Rightarrow> ts \<noteq> []))"

definition content_positions :: "nat \<Rightarrow> post option list \<Rightarrow> nat list" where
  \<comment> \<open>the positions, counted from \<open>i\<close>, of the posts that have a body\<close>
  "content_positions i ps = map fst (filter (\<lambda>(j, p). post_has_content p) (enumerate i ps))"

definition tweets_positions :: "nat \<Rightarrow> thread option list \<Rightarrow> nat list" where
  "tweets_positions i ts = map fst (filter (\<lambda>(j, t). thread_has_tweets t) (enumerate i ts))"

definition selected_date :: "datestr list \<Rightarrow> nat \<Rightarrow> datestr" where
  "selected_date ds i = ds ! min i (length ds - 1)"

definition outcome_of :: "response \<Rightarrow> post_status \<times> string" where
  "outcome_of r =
     (case r of
        DraftCreated d \<Rightarrow> (scheduled, d)
      | HttpError code statusText body \<Rightarrow> (failed, [])
      | NetworkFailure \<Rightarrow> (failed, []))"

definition draft_request ::
  "env \<Rightarrow> string \<Rightarrow> platform \<Rightarrow> string \<Rightarrow> datestr \<Rightarrow> bool \<Rightarrow> world \<Rightarrow> request" where
  \<comment> \<open>the request that \<open>createTypefullyDraft\<close> sends\<close>
  "draft_request E c pf k d th w =
     \<lparr>r_content = c, r_platform = pf, r_threadify = th,
      r_schedule_date = fst (date_or_tomorrow E d w), r_auto_retweet_enabled = False,
      r_auto_plug_enabled = False, r_api_key = k\<rparr>"

definition thread_text :: "post list \<Rightarrow> string" where
  \<comment> \<open>the body of a thread: its tweets joined by four newlines\<close>
  "thread_text tweets = join (replicate 4 (CHR 0x0A)) (map tweet_text tweets)"

definition resolve :: "env \<Rightarrow> string \<Rightarrow> int \<Rightarrow> jsdate" where
  \<comment> \<open>the \<open>Date\<close> object that \<open>getValidDate\<close> makes of a hint\<close>
  "resolve E s t = (case parseRelativeDate E s t of Some d \<Rightarrow> d | None \<Rightarrow> parseDate E s)"

definition index_ids :: "world \<Rightarrow> string list" where
  \<comment> \<open>the IDs that the index record holds\<close>
  "index_ids w = (case kv_index w of None \<Rightarrow> [] | Some ids \<Rightarrow> ids)"

definition route_index_ids :: "env \<Rightarrow> world \<Rightarrow> string list" where
  \<comment> \<open>the IDs as the route reads them, \<open>indexResult.data.campaignIds || []\<close>\<close>
  "route_index_ids E w =
     (case kv_index w of
        None \<Rightarrow> []
      | Some stored \<Rightarrow> (case data_value (kv_client E) stored of None \<Rightarrow> [] | Some ids \<Rightarrow> ids))"

text \<open>
  What a save in flight has achieved, for the save of \<open>c\<close> running beside the save of
  another campaign: once the record is written it stays stored; the list a task is about
  to write holds its ID; and when the task has returned \<open>true\<close>, the index holds its ID
  or the ID of the other campaign, which has then overwritten it.
\<close>

fun task_inv :: "campaign \<Rightarrow> string \<Rightarrow> save_task \<Rightarrow> world \<Rightarrow> bool" where
  "task_inv c other (SaveStart c') w \<longleftrightarrow> c' = c"
| "task_inv c other (SaveIndexing c') w \<longleftrightarrow>
     c' = c \<and> isValidId (c_id c) \<and> kv_campaigns w (c_id c) = Some c"
| "task_inv c other (SaveWriting c' ids) w \<longleftrightarrow>
     c' = c \<and> kv_campaigns w (c_id c) = Some c \<and> c_id c \<in> set ids"
| "task_inv c other (SaveDone ok) w \<longleftrightarrow>
     (ok \<longrightarrow> kv_campaigns w (c_id c) = Some c
            \<and> (c_id c \<in> set (index_ids w) \<or> other \<in> set (index_ids w)))"

section \<open>Example inputs\<close>

text \<open>
  An environment for the examples: the clock advances by a millisecond at each reading,
  the key-value service never fails, the publishing service rejects the body \<open>bad\<close>
  and numbers its drafts \<open>d1\<close>, \<open>d2\<close>, \<dots>  The \<open>Date\<close> constructor of the example
  reads one string only, its months have thirty days, and its natural-language library
  understands nothing.  Its key-value client has the shape that \<open>getCampaign\<close> reads;
  \<open>env_runtime\<close> and \<open>env_member\<close> are the same environment with the shapes that the
  route and \<open>getCampaignIndex\<close> read.
\<close>

definition env0 :: env where
  "env0 = \<lparr>clock = (\<lambda>n. 1793000000000 + int n),
           kv_fault = (\<lambda>n. False),
           fetch = (\<lambda>n req. if r_content req = ''bad''
                     then HttpError 500 ''Internal Server Error'' ''rejected''
                     else DraftCreated (''d'' @ string_of_nat (Suc n))),
           TYPEFULLY_API_KEY = Some ''key'',
           parseDate = (\<lambda>s. if s = ''2026-10-26T07:33:20.000Z''
                            then Some 1793000000000 else None),
           addMonths = (\<lambda>t n. addDays t (30 * n)),
           parseHumanRelative = (\<lambda>s t. Threw),
           parseEraYear = (\<lambda>t. None),
           kv_client = DataJsonMethod\<rparr>"

definition env_runtime :: env where
  "env_runtime = env0\<lparr>kv_client := DataIsValue\<rparr>"

definition env_member :: env where
  "env_member = env0\<lparr>kv_client := DataJsonMember\<rparr>"

definition world0 :: world where
  "world0 = \<lparr>kv_campaigns = (\<lambda>k. None), kv_index = None, kv_ops = 0,
             clock_reads = 0, sent = []\<rparr>"

definition mk_post :: "string \<Rightarrow> post" where
  "mk_post c = \<lparr>p_platform = linkedin, p_content = Some c, p_media = None,
                p_scheduledDate = None, p_typefullyId = None\<rparr>"

definition mk_thread :: "string list \<Rightarrow> thread" where
  "mk_thread cs =
     \<lparr>t_tweets = Some (map (\<lambda>c. (mk_post c)\<lparr>p_platform := twitter\<rparr>) cs),
      t_scheduledDate = None, t_typefullyId = None\<rparr>"

definition ok_bad_ok :: "post option list" where
  "ok_bad_ok = [Some (mk_post ''ok''), Some (mk_post ''bad''), Some (mk_post ''ok'')]"

definition three_threads :: "thread option list" where
  "three_threads = [Some (mk_thread [''one'', ''two'']), Some (mk_thread []),
                    Some (mk_thread [''bad''])]"

definition with_gaps :: "post option list" where
  "with_gaps = [Some (mk_post ''A''), Some (mk_post []), Some (mk_post ''C'')]"

definition two_dates :: "datestr list" where
  "two_dates = [Iso 1793000000000, Iso 1793086400000]"

definition env_frozen :: env where
  \<comment> \<open>as \<open>env0\<close>, with all readings of the clock in the same millisecond\<close>
  "env_frozen = env0\<lparr>clock := (\<lambda>n. 1793000000000)\<rparr>"

definition campaign_c1 :: "post option list \<Rightarrow> thread option list \<Rightarrow> campaign" where
  "campaign_c1 posts threads =
     \<lparr>c_id = ''c1'', c_topic = ''launch'', c_description = None, c_publishDate = None,
      c_status = writing, c_research = None,
      c_content = Some \<lparr>linkedInPosts = posts, twitterThreads = threads\<rparr>,
      c_schedulingInfo = None,
      c_createdAt = Iso 1792000000000, c_updatedAt = Iso 1792000000000\<rparr>"

definition world_with :: "campaign \<Rightarrow> world" where
  \<comment> \<open>a store that holds one campaign, indexed\<close>
  "world_with c = world0\<lparr>kv_campaigns := [c_id c \<mapsto> c], kv_index := Some [c_id c]\<rparr>"

definition request_c1 :: scheduler_request where
  "request_c1 = \<lparr>sr_campaignId = ''c1'',
                  sr_content = \<lparr>linkedInPosts = [], twitterThreads = []\<rparr>,
                  sr_publishDate = Some ''tomorrow''\<rparr>"

definition stored_outcomes :: "world \<Rightarrow> string \<Rightarrow> outcome list option" where
  \<comment> \<open>the \<open>schedulingInfo.scheduledPosts\<close> of the campaign stored under a key\<close>
  "stored_outcomes w key =
     (case kv_campaigns w key of
        None \<Rightarrow> None
      | Some c \<Rightarrow> map_option scheduledPosts (c_schedulingInfo c))"

definition stored_status :: "world \<Rightarrow> string \<Rightarrow> campaign_status option" where
  "stored_status w key = map_option c_status (kv_campaigns w key)"

definition campaign_A :: campaign where
  "campaign_A = (campaign_c1 [] [])\<lparr>c_id := ''A''\<rparr>"

definition campaign_B :: campaign where
  "campaign_B = (campaign_c1 [] [])\<lparr>c_id := ''B''\<rparr>"

definition world_AB :: world where
  \<comment> \<open>a store that holds the campaigns \<open>A\<close> and \<open>B\<close>, both indexed\<close>
  "world_AB = world0\<lparr>kv_campaigns := [''A'' \<mapsto> campaign_A, ''B'' \<mapsto> campaign_B],
                     kv_index := Some [''A'', ''B'']\<rparr>"

definition env_index_down :: env where
  \<comment> \<open>the second, third and fourth calls throw, three reads of the index; a fourth would not\<close>
  "env_index_down = env_runtime\<lparr>kv_fault := (\<lambda>n. 1 \<le> n \<and> n \<le> 3)\<rparr>"

definition env_write_fails_once :: env where
  \<comment> \<open>only the third call of the key-value service throws: the first write of the index\<close>
  "env_write_fails_once = env_runtime\<lparr>kv_fault := (\<lambda>n. n = 2)\<rparr>"

definition env_read_fails_twice :: env where
  \<comment> \<open>the second and third calls throw: the first two reads of the index\<close>
  "env_read_fails_twice = env_runtime\<lparr>kv_fault := (\<lambda>n. n = 1 \<or> n = 2)\<rparr>"

definition two_and_one :: campaign where
  \<comment> \<open>a campaign with two linkedin posts and one twitter thread\<close>
  "two_and_one = campaign_c1 [Some (mk_post ''first''), Some (mk_post ''second'')]
                   [Some (mk_thread [''one'', ''two''])]"

definition no_info :: scheduling_info where
  "no_info = \<lparr>typefullyScheduleId = None, scheduledPosts = []\<rparr>"


definition env_far_year :: env where
  \<comment> \<open>the \<open>Date\<close> constructor reads the hint with the expanded year 10000\<close>
  "env_far_year =
     env0\<lparr>parseDate := (\<lambda>s. if s = ''+010000-01-01T00:00:00.000Z''
                              then Some 253402300800000 else None)\<rparr>"

definition request_far_year :: scheduler_request where
  "request_far_year = \<lparr>sr_campaignId = ''c1'',
                        sr_content = \<lparr>linkedInPosts = [], twitterThreads = []\<rparr>,
                        sr_publishDate = Some ''+010000-01-01T00:00:00.000Z''\<rparr>"
section \<open>The item schedulers: what a run of the loop does\<close>

lemma sent_now [simp]: "sent (snd (now E w)) = sent w"
  by (simp add: now_def)

lemma sent_getValidDate [simp]: "sent (snd (getValidDate E h b w)) = sent w"
  by (simp add: getValidDate_def now_def Let_def split: option.splits prod.splits)

lemma sent_date_or_tomorrow [simp]: "sent (snd (date_or_tomorrow E d w)) = sent w"
  by (simp add: date_or_tomorrow_def)

lemma date_or_tomorrow_truthy [simp]: "\<not> falsy d \<Longrightarrow> date_or_tomorrow E d w = (d, w)"
  by (simp add: date_or_tomorrow_def)

lemma schedule_post_skip:
  "\<not> post_has_content (Some p) \<Longrightarrow> schedule_post E k ds i p w = (None, p, w)"
  by (auto simp: schedule_post_def post_has_content_def split: option.splits)

lemma schedule_post_dispatch:
  assumes "p_content p = Some c" "c \<noteq> []"
  shows "\<exists>x p' w'. schedule_post E k ds i p w = (Some x, p', w')
           \<and> sent w' = sent w @ [draft_request E c linkedin k (selected_date ds i) False w]
           \<and> o_postId x = ''linkedin-post-'' @ string_of_nat i
           \<and> (o_status x, o_typefullyId x) = outcome_of (fetch E (length (sent w)) (draft_request E c linkedin k (selected_date ds i) False w))
           \<and> (\<not> falsy (selected_date ds i) \<longrightarrow> o_scheduledDate x = selected_date ds i)"
  using assms
  by (cases "fetch E (length (sent w)) (draft_request E c linkedin k (selected_date ds i) False w)")
     (simp_all add: schedule_post_def createTypefullyDraft_def Let_def outcome_of_def selected_date_def
      case_prod_beta draft_request_def)


lemma content_positions_simps [simp]:
  "content_positions i [] = []"
  "content_positions i (p # ps) =
     (if post_has_content p then i # content_positions (Suc i) ps
      else content_positions (Suc i) ps)"
  by (simp_all add: content_positions_def)

lemma post_has_content_None [simp]: "\<not> post_has_content None"
  by (simp add: post_has_content_def)

lemma post_has_content_Some:
  "post_has_content (Some p) \<longleftrightarrow> (\<exists>c. p_content p = Some c \<and> c \<noteq> [])"
  by (auto simp: post_has_content_def split: option.splits)

lemma linkedin_loop_skip:
  "\<not> post_has_content (Some p) \<Longrightarrow>
   linkedin_loop E k ds i (Some p # ps) w =
     (let (os, ps', w') = linkedin_loop E k ds (Suc i) ps w in (os, Some p # ps', w'))"
  by (simp add: schedule_post_skip)

lemma linkedin_loop_dispatch:
  "schedule_post E k ds i p w = (Some x, p', w1) \<Longrightarrow>
   linkedin_loop E k ds i (Some p # ps) w =
     (let (os, ps', w') = linkedin_loop E k ds (Suc i) ps w1 in (x # os, Some p' # ps', w'))"
  by simp


lemma linkedin_loop_cases [case_names Nil Null Skip Dispatch]:
  assumes Nil: "\<And>i w. P i [] w ([], [], w)"
    and Null: "\<And>i ps w os ps' w'.
        linkedin_loop E k ds (Suc i) ps w = (os, ps', w') \<Longrightarrow> P (Suc i) ps w (os, ps', w') \<Longrightarrow>
        P i (None # ps) w (os, None # ps', w')"
    and Skip: "\<And>i p ps w os ps' w'.
        \<not> post_has_content (Some p) \<Longrightarrow>
        linkedin_loop E k ds (Suc i) ps w = (os, ps', w') \<Longrightarrow> P (Suc i) ps w (os, ps', w') \<Longrightarrow>
        P i (Some p # ps) w (os, Some p # ps', w')"
    and Dispatch: "\<And>i p c ps w x p' w1 os ps' w'.
        p_content p = Some c \<Longrightarrow> c \<noteq> [] \<Longrightarrow>
        schedule_post E k ds i p w = (Some x, p', w1) \<Longrightarrow>
        sent w1 = sent w @ [draft_request E c linkedin k (selected_date ds i) False w] \<Longrightarrow>
        o_postId x = ''linkedin-post-'' @ string_of_nat i \<Longrightarrow>
        (o_status x, o_typefullyId x) =
          outcome_of (fetch E (length (sent w)) (draft_request E c linkedin k (selected_date ds i) False w)) \<Longrightarrow>
        (\<not> falsy (selected_date ds i) \<longrightarrow> o_scheduledDate x = selected_date ds i) \<Longrightarrow>
        linkedin_loop E k ds (Suc i) ps w1 = (os, ps', w') \<Longrightarrow> P (Suc i) ps w1 (os, ps', w') \<Longrightarrow>
        P i (Some p # ps) w (x # os, Some p' # ps', w')"
  shows "P i ps w (linkedin_loop E k ds i ps w)"
proof (induction ps arbitrary: i w)
  case Nil
  show ?case using assms(1) by simp
next
  case (Cons a ps)
  show ?case
  proof (cases a)
    case None
    obtain os ps' w' where r: "linkedin_loop E k ds (Suc i) ps w = (os, ps', w')"
      by (cases "linkedin_loop E k ds (Suc i) ps w") auto
    with Cons.IH [of "Suc i" w] have "P (Suc i) ps w (os, ps', w')" by simp
    from Null [OF r this] show ?thesis using None r by simp
  next
    case (Some p)
    show ?thesis
    proof (cases "post_has_content (Some p)")
      case False
      obtain os ps' w' where r: "linkedin_loop E k ds (Suc i) ps w = (os, ps', w')"
        by (cases "linkedin_loop E k ds (Suc i) ps w") auto
      with Cons.IH [of "Suc i" w] have "P (Suc i) ps w (os, ps', w')" by simp
      from Skip [OF False r this] show ?thesis
        using Some r by (simp add: linkedin_loop_skip [OF False] del: linkedin_loop.simps)
    next
      case True
      then obtain c where c: "p_content p = Some c" "c \<noteq> []"
        by (auto simp: post_has_content_Some)
      from schedule_post_dispatch [OF c, of E k ds i w]
      obtain x p' w1 where sp: "schedule_post E k ds i p w = (Some x, p', w1)"
        and rest: "sent w1 = sent w @ [draft_request E c linkedin k (selected_date ds i) False w]"
          "o_postId x = ''linkedin-post-'' @ string_of_nat i"
          "(o_status x, o_typefullyId x) =
             outcome_of (fetch E (length (sent w)) (draft_request E c linkedin k (selected_date ds i) False w))"
          "\<not> falsy (selected_date ds i) \<longrightarrow> o_scheduledDate x = selected_date ds i"
        by blast
      obtain os ps' w' where r: "linkedin_loop E k ds (Suc i) ps w1 = (os, ps', w')"
        by (cases "linkedin_loop E k ds (Suc i) ps w1") auto
      with Cons.IH [of "Suc i" w1] have "P (Suc i) ps w1 (os, ps', w')" by simp
      from Dispatch [OF c sp rest r this] show ?thesis
        using Some r by (simp add: linkedin_loop_dispatch [OF sp] del: linkedin_loop.simps)
    qed
  qed
qed

lemma linkedin_loop_postIds:
  "map o_postId (fst (linkedin_loop E k ds i ps w)) =
   map (\<lambda>j. ''linkedin-post-'' @ string_of_nat j) (content_positions i ps)"
  by (rule linkedin_loop_cases [where P = "\<lambda>i ps w r. map o_postId (fst r) =
        map (\<lambda>j. ''linkedin-post-'' @ string_of_nat j) (content_positions i ps)"])
     (simp_all add: post_has_content_Some)

lemma linkedin_loop_dates:
  assumes "\<forall>d \<in> set ds. \<not> falsy d" "ds \<noteq> []"
  shows "map o_scheduledDate (fst (linkedin_loop E k ds i ps w)) =
   map (selected_date ds) (content_positions i ps)"
proof -
  have sel: "\<not> falsy (selected_date ds j)" for j
  proof -
    have "min j (length ds - 1) < length ds" using assms(2) by (cases ds) auto
    then show ?thesis using assms(1) unfolding selected_date_def by (meson nth_mem)
  qed
  show ?thesis
  by (rule linkedin_loop_cases [where P = "\<lambda>i ps w r. map o_scheduledDate (fst r) =
        map (selected_date ds) (content_positions i ps)"])
     (simp_all add: post_has_content_Some sel)
qed

lemma linkedin_loop_posts_length:
  "length (fst (snd (linkedin_loop E k ds i ps w))) = length ps"
  by (rule linkedin_loop_cases [where P = "\<lambda>i ps w r. length (fst (snd r)) = length ps"]) simp_all

lemma linkedin_loop_sent:
  "\<exists>reqs. sent (snd (snd (linkedin_loop E k ds i ps w))) = sent w @ reqs
     \<and> length reqs = length (content_positions i ps)
     \<and> map (\<lambda>x. (o_status x, o_typefullyId x)) (fst (linkedin_loop E k ds i ps w)) =
         map (\<lambda>(n, r). outcome_of (fetch E n r)) (enumerate (length (sent w)) reqs)"
proof (rule linkedin_loop_cases [where P = "\<lambda>i ps w r. \<exists>reqs. sent (snd (snd r)) = sent w @ reqs
     \<and> length reqs = length (content_positions i ps)
     \<and> map (\<lambda>x. (o_status x, o_typefullyId x)) (fst r) =
         map (\<lambda>(n, r). outcome_of (fetch E n r)) (enumerate (length (sent w)) reqs)"], goal_cases)
  case (1 i w)
  then show ?case by simp
next
  case (2 i ps w os ps' w')
  then show ?case by simp
next
  case (3 i p ps w os ps' w')
  then show ?case by simp
next
  case (4 i p c ps w x p' w1 os ps' w')
  then obtain reqs where reqs: "sent w' = sent w1 @ reqs"
     "length reqs = length (content_positions (Suc i) ps)"
     "map (\<lambda>x. (o_status x, o_typefullyId x)) os =
         map (\<lambda>(n, r). outcome_of (fetch E n r)) (enumerate (length (sent w1)) reqs)"
    by auto
  let ?req = "draft_request E c linkedin k (selected_date ds i) False w"
  have "sent w' = sent w @ (?req # reqs)" using reqs(1) 4(4) by simp
  moreover have "length (?req # reqs) = length (content_positions i (Some p # ps))"
    using reqs(2) 4(1,2) by (simp add: post_has_content_Some)
  moreover have "map (\<lambda>x. (o_status x, o_typefullyId x)) (x # os) =
         map (\<lambda>(n, r). outcome_of (fetch E n r)) (enumerate (length (sent w)) (?req # reqs))"
    using reqs(3) 4(4,6) by simp
  ultimately show ?case by (intro exI [of _ "?req # reqs"]) simp
qed


lemma schedule_thread_skip:
  "\<not> thread_has_tweets (Some p) \<Longrightarrow> schedule_thread E k ds i p w = (None, p, w)"
  by (auto simp: schedule_thread_def thread_text_def thread_has_tweets_def split: option.splits)

lemma schedule_thread_dispatch:
  assumes "t_tweets p = Some tw" "tw \<noteq> []"
  shows "\<exists>x p' w'. schedule_thread E k ds i p w = (Some x, p', w')
           \<and> sent w' = sent w @ [draft_request E (thread_text tw) twitter k (selected_date ds i) True w]
           \<and> o_postId x = ''twitter-thread-'' @ string_of_nat i
           \<and> (o_status x, o_typefullyId x) = outcome_of (fetch E (length (sent w)) (draft_request E (thread_text tw) twitter k (selected_date ds i) True w))
           \<and> (\<not> falsy (selected_date ds i) \<longrightarrow> o_scheduledDate x = selected_date ds i)"
  using assms
  by (cases "fetch E (length (sent w)) (draft_request E (thread_text tw) twitter k (selected_date ds i) True w)")
     (simp_all add: schedule_thread_def thread_text_def createTypefullyDraft_def Let_def outcome_of_def selected_date_def
      case_prod_beta draft_request_def)


lemma tweets_positions_simps [simp]:
  "tweets_positions i [] = []"
  "tweets_positions i (p # ps) =
     (if thread_has_tweets p then i # tweets_positions (Suc i) ps
      else tweets_positions (Suc i) ps)"
  by (simp_all add: tweets_positions_def)

lemma thread_has_tweets_None [simp]: "\<not> thread_has_tweets None"
  by (simp add: thread_has_tweets_def)

lemma thread_has_tweets_Some:
  "thread_has_tweets (Some p) \<longleftrightarrow> (\<exists>tw. t_tweets p = Some tw \<and> tw \<noteq> [])"
  by (auto simp: thread_has_tweets_def split: option.splits)

lemma twitter_loop_skip:
  "\<not> thread_has_tweets (Some p) \<Longrightarrow>
   twitter_loop E k ds i (Some p # ps) w =
     (let (os, ps', w') = twitter_loop E k ds (Suc i) ps w in (os, Some p # ps', w'))"
  by (simp add: schedule_thread_skip)

lemma twitter_loop_dispatch:
  "schedule_thread E k ds i p w = (Some x, p', w1) \<Longrightarrow>
   twitter_loop E k ds i (Some p # ps) w =
     (let (os, ps', w') = twitter_loop E k ds (Suc i) ps w1 in (x # os, Some p' # ps', w'))"
  by simp


lemma twitter_loop_cases [case_names Nil Null Skip Dispatch]:
  assumes Nil: "\<And>i w. P i [] w ([], [], w)"
    and Null: "\<And>i ps w os ps' w'.
        twitter_loop E k ds (Suc i) ps w = (os, ps', w') \<Longrightarrow> P (Suc i) ps w (os, ps', w') \<Longrightarrow>
        P i (None # ps) w (os, None # ps', w')"
    and Skip: "\<And>i p ps w os ps' w'.
        \<not> thread_has_tweets (Some p) \<Longrightarrow>
        twitter_loop E k ds (Suc i) ps w = (os, ps', w') \<Longrightarrow> P (Suc i) ps w (os, ps', w') \<Longrightarrow>
        P i (Some p # ps) w (os, Some p # ps', w')"
    and Dispatch: "\<And>i p tw ps w x p' w1 os ps' w'.
        t_tweets p = Some tw \<Longrightarrow> tw \<noteq> [] \<Longrightarrow>
        schedule_thread E k ds i p w = (Some x, p', w1) \<Longrightarrow>
        sent w1 = sent w @ [draft_request E (thread_text tw) twitter k (selected_date ds i) True w] \<Longrightarrow>
        o_postId x = ''twitter-thread-'' @ string_of_nat i \<Longrightarrow>
        (o_status x, o_typefullyId x) =
          outcome_of (fetch E (length (sent w)) (draft_request E (thread_text tw) twitter k (selected_date ds i) True w)) \<Longrightarrow>
        (\<not> falsy (selected_date ds i) \<longrightarrow> o_scheduledDate x = selected_date ds i) \<Longrightarrow>
        twitter_loop E k ds (Suc i) ps w1 = (os, ps', w') \<Longrightarrow> P (Suc i) ps w1 (os, ps', w') \<Longrightarrow>
        P i (Some p # ps) w (x # os, Some p' # ps', w')"
  shows "P i ps w (twitter_loop E k ds i ps w)"
proof (induction ps arbitrary: i w)
  case Nil
  show ?case using assms(1) by simp
next
  case (Cons a ps)
  show ?case
  proof (cases a)
    case None
    obtain os ps' w' where r: "twitter_loop E k ds (Suc i) ps w = (os, ps', w')"
      by (cases "twitter_loop E k ds (Suc i) ps w") auto
    with Cons.IH [of "Suc i" w] have "P (Suc i) ps w (os, ps', w')" by simp
    from Null [OF r this] show ?thesis using None r by simp
  next
    case (Some p)
    show ?thesis
    proof (cases "thread_has_tweets (Some p)")
      case False
      obtain os ps' w' where r: "twitter_loop E k ds (Suc i) ps w = (os, ps', w')"
        by (cases "twitter_loop E k ds (Suc i) ps w") auto
      with Cons.IH [of "Suc i" w] have "P (Suc i) ps w (os, ps', w')" by simp
      from Skip [OF False r this] show ?thesis
        using Some r by (simp add: twitter_loop_skip [OF False] del: twitter_loop.simps)
    next
      case True
      then obtain tw where c: "t_tweets p = Some tw" "tw \<noteq> []"
        by (auto simp: thread_has_tweets_Some)
      from schedule_thread_dispatch [OF c, of E k ds i w]
      obtain x p' w1 where sp: "schedule_thread E k ds i p w = (Some x, p', w1)"
        and rest: "sent w1 = sent w @ [draft_request E (thread_text tw) twitter k (selected_date ds i) True w]"
          "o_postId x = ''twitter-thread-'' @ string_of_nat i"
          "(o_status x, o_typefullyId x) =
             outcome_of (fetch E (length (sent w)) (draft_request E (thread_text tw) twitter k (selected_date ds i) True w))"
          "\<not> falsy (selected_date ds i) \<longrightarrow> o_scheduledDate x = selected_date ds i"
        by blast
      obtain os ps' w' where r: "twitter_loop E k ds (Suc i) ps w1 = (os, ps', w')"
        by (cases "twitter_loop E k ds (Suc i) ps w1") auto
      with Cons.IH [of "Suc i" w1] have "P (Suc i) ps w1 (os, ps', w')" by simp
      from Dispatch [OF c sp rest r this] show ?thesis
        using Some r by (simp add: twitter_loop_dispatch [OF sp] del: twitter_loop.simps)
    qed
  qed
qed

lemma twitter_loop_postIds:
  "map o_postId (fst (twitter_loop E k ds i ps w)) =
   map (\<lambda>j. ''twitter-thread-'' @ string_of_nat j) (tweets_positions i ps)"
  by (rule twitter_loop_cases [where P = "\<lambda>i ps w r. map o_postId (fst r) =
        map (\<lambda>j. ''twitter-thread-'' @ string_of_nat j) (tweets_positions i ps)"])
     (simp_all add: thread_has_tweets_Some)

lemma twitter_loop_dates:
  assumes "\<forall>d \<in> set ds. \<not> falsy d" "ds \<noteq> []"
  shows "map o_scheduledDate (fst (twitter_loop E k ds i ps w)) =
   map (selected_date ds) (tweets_positions i ps)"
proof -
  have sel: "\<not> falsy (selected_date ds j)" for j
  proof -
    have "min j (length ds - 1) < length ds" using assms(2) by (cases ds) auto
    then show ?thesis using assms(1) unfolding selected_date_def by (meson nth_mem)
  qed
  show ?thesis
  by (rule twitter_loop_cases [where P = "\<lambda>i ps w r. map o_scheduledDate (fst r) =
        map (selected_date ds) (tweets_positions i ps)"])
     (simp_all add: thread_has_tweets_Some sel)
qed

lemma twitter_loop_posts_length:
  "length (fst (snd (twitter_loop E k ds i ps w))) = length ps"
  by (rule twitter_loop_cases [where P = "\<lambda>i ps w r. length (fst (snd r)) = length ps"]) simp_all

lemma twitter_loop_sent:
  "\<exists>reqs. sent (snd (snd (twitter_loop E k ds i ps w))) = sent w @ reqs
     \<and> length reqs = length (tweets_positions i ps)
     \<and> map (\<lambda>x. (o_status x, o_typefullyId x)) (fst (twitter_loop E k ds i ps w)) =
         map (\<lambda>(n, r). outcome_of (fetch E n r)) (enumerate (length (sent w)) reqs)"
proof (rule twitter_loop_cases [where P = "\<lambda>i ps w r. \<exists>reqs. sent (snd (snd r)) = sent w @ reqs
     \<and> length reqs = length (tweets_positions i ps)
     \<and> map (\<lambda>x. (o_status x, o_typefullyId x)) (fst r) =
         map (\<lambda>(n, r). outcome_of (fetch E n r)) (enumerate (length (sent w)) reqs)"], goal_cases)
  case (1 i w)
  then show ?case by simp
next
  case (2 i ps w os ps' w')
  then show ?case by simp
next
  case (3 i p ps w os ps' w')
  then show ?case by simp
next
  case (4 i p tw ps w x p' w1 os ps' w')
  then obtain reqs where reqs: "sent w' = sent w1 @ reqs"
     "length reqs = length (tweets_positions (Suc i) ps)"
     "map (\<lambda>x. (o_status x, o_typefullyId x)) os =
         map (\<lambda>(n, r). outcome_of (fetch E n r)) (enumerate (length (sent w1)) reqs)"
    by auto
  let ?req = "draft_request E (thread_text tw) twitter k (selected_date ds i) True w"
  have "sent w' = sent w @ (?req # reqs)" using reqs(1) 4(4) by simp
  moreover have "length (?req # reqs) = length (tweets_positions i (Some p # ps))"
    using reqs(2) 4(1,2) by (simp add: thread_has_tweets_Some)
  moreover have "map (\<lambda>x. (o_status x, o_typefullyId x)) (x # os) =
         map (\<lambda>(n, r). outcome_of (fetch E n r)) (enumerate (length (sent w)) (?req # reqs))"
    using reqs(3) 4(4,6) by simp
  ultimately show ?case by (intro exI [of _ "?req # reqs"]) simp
qed


lemma string_of_nat_nonempty: "string_of_nat n \<noteq> []"
  by (subst string_of_nat.simps) simp

lemma of_char_digit_char: "a < 10 \<Longrightarrow> (of_char (digit_char a) :: nat) = 48 + a"
  by (simp add: digit_char_def)

lemma digit_char_inj:
  assumes "a < 10" "b < 10" "digit_char a = digit_char b"
  shows "a = b"
proof -
  have "(of_char (digit_char a) :: nat) = of_char (digit_char b)"
    by (simp only: assms(3))
  then have "48 + a = 48 + b"
    unfolding of_char_digit_char [OF assms(1)] of_char_digit_char [OF assms(2)] .
  then show ?thesis by (rule add_left_imp_eq)
qed

lemma string_of_nat_inj: "string_of_nat m = string_of_nat n \<Longrightarrow> m = n"
proof (induction n arbitrary: m rule: string_of_nat.induct)
  case (1 n)
  show ?case
  proof (cases "n < 10")
    case n: True
    show ?thesis
    proof (cases "m < 10")
      case True
      with n "1.prems" show ?thesis
        by (simp add: string_of_nat.simps [of m] string_of_nat.simps [of n] digit_char_inj)
    next
      case False
      with n "1.prems" show ?thesis
        using string_of_nat_nonempty [of "m div 10"]
        by (simp add: string_of_nat.simps [of m] string_of_nat.simps [of n])
    qed
  next
    case n: False
    show ?thesis
    proof (cases "m < 10")
      case True
      with n "1.prems" show ?thesis
        using string_of_nat_nonempty [of "n div 10"]
        by (simp add: string_of_nat.simps [of m] string_of_nat.simps [of n])
    next
      case False
      with n "1.prems" have "string_of_nat (m div 10) = string_of_nat (n div 10)"
        and d: "digit_char (m mod 10) = digit_char (n mod 10)"
        by (simp_all add: string_of_nat.simps [of m] string_of_nat.simps [of n])
      with "1.IH" n have "m div 10 = n div 10" by simp
      moreover from d have "m mod 10 = n mod 10" by (simp add: digit_char_inj)
      ultimately show ?thesis by (metis div_mult_mod_eq)
    qed
  qed
qed

lemma content_positions_mem:
  "j \<in> set (content_positions i ps) \<Longrightarrow> i \<le> j \<and> j < i + length ps \<and> post_has_content (ps ! (j - i))"
  by (auto simp: content_positions_def in_set_enumerate_eq)

lemma tweets_positions_mem:
  "j \<in> set (tweets_positions i ts) \<Longrightarrow> i \<le> j \<and> j < i + length ts \<and> thread_has_tweets (ts ! (j - i))"
  by (auto simp: tweets_positions_def in_set_enumerate_eq)

lemma linkedin_outcome_position:
  assumes "x \<in> set (fst (scheduleLinkedInPosts E posts ds k w))"
  shows "\<exists>j \<in> set (content_positions 0 posts). o_postId x = ''linkedin-post-'' @ string_of_nat j"
proof (cases "ds = []")
  case True
  with assms show ?thesis by (simp add: scheduleLinkedInPosts_def)
next
  case False
  with assms have "o_postId x \<in> set (map o_postId (fst (linkedin_loop E k ds 0 posts w)))"
    by (simp add: scheduleLinkedInPosts_def)
  then show ?thesis unfolding linkedin_loop_postIds by auto
qed

lemma twitter_outcome_position:
  assumes "x \<in> set (fst (scheduleTwitterThreads E threads ds k w))"
  shows "\<exists>j \<in> set (tweets_positions 0 threads). o_postId x = ''twitter-thread-'' @ string_of_nat j"
proof (cases "ds = []")
  case True
  with assms show ?thesis by (simp add: scheduleTwitterThreads_def)
next
  case False
  with assms have "o_postId x \<in> set (map o_postId (fst (twitter_loop E k ds 0 threads w)))"
    by (simp add: scheduleTwitterThreads_def)
  then show ?thesis unfolding twitter_loop_postIds by auto
qed


lemma linkedin_loop_request_dates:
  assumes "\<forall>d \<in> set ds. \<not> falsy d" "ds \<noteq> []"
  shows "\<exists>reqs. sent (snd (snd (linkedin_loop E k ds i ps w))) = sent w @ reqs
     \<and> map r_schedule_date reqs = map (selected_date ds) (content_positions i ps)"
proof -
  have sel: "\<not> falsy (selected_date ds j)" for j
  proof -
    have "min j (length ds - 1) < length ds" using assms(2) by (cases ds) auto
    then show ?thesis using assms(1) unfolding selected_date_def by (meson nth_mem)
  qed
  show ?thesis
  proof (rule linkedin_loop_cases [where P = "\<lambda>i ps w r. \<exists>reqs. sent (snd (snd r)) = sent w @ reqs
     \<and> map r_schedule_date reqs = map (selected_date ds) (content_positions i ps)"], goal_cases)
    case (4 i p c ps w x p' w1 os ps' w')
    then obtain reqs where reqs: "sent w' = sent w1 @ reqs"
      "map r_schedule_date reqs = map (selected_date ds) (content_positions (Suc i) ps)"
      by auto
    let ?req = "draft_request E c linkedin k (selected_date ds i) False w"
    have "r_schedule_date ?req = selected_date ds i"
      by (simp add: draft_request_def sel)
    then show ?case using reqs 4(1,2,4)
      by (intro exI [of _ "?req # reqs"]) (simp add: post_has_content_Some)
  qed simp_all
qed

lemma twitter_loop_request_dates:
  assumes "\<forall>d \<in> set ds. \<not> falsy d" "ds \<noteq> []"
  shows "\<exists>reqs. sent (snd (snd (twitter_loop E k ds i ps w))) = sent w @ reqs
     \<and> map r_schedule_date reqs = map (selected_date ds) (tweets_positions i ps)"
proof -
  have sel: "\<not> falsy (selected_date ds j)" for j
  proof -
    have "min j (length ds - 1) < length ds" using assms(2) by (cases ds) auto
    then show ?thesis using assms(1) unfolding selected_date_def by (meson nth_mem)
  qed
  show ?thesis
  proof (rule twitter_loop_cases [where P = "\<lambda>i ps w r. \<exists>reqs. sent (snd (snd r)) = sent w @ reqs
     \<and> map r_schedule_date reqs = map (selected_date ds) (tweets_positions i ps)"], goal_cases)
    case (4 i p tw ps w x p' w1 os ps' w')
    then obtain reqs where reqs: "sent w' = sent w1 @ reqs"
      "map r_schedule_date reqs = map (selected_date ds) (tweets_positions (Suc i) ps)"
      by auto
    let ?req = "draft_request E (thread_text tw) twitter k (selected_date ds i) True w"
    have "r_schedule_date ?req = selected_date ds i"
      by (simp add: draft_request_def sel)
    then show ?case using reqs 4(1,2,4)
      by (intro exI [of _ "?req # reqs"]) (simp add: thread_has_tweets_Some)
  qed simp_all
qed

lemma selected_date_last: "ds \<noteq> [] \<Longrightarrow> length ds - 1 \<le> i \<Longrightarrow> selected_date ds i = last ds"
  by (simp add: selected_date_def last_conv_nth min_def)

lemma ok_bad_ok_sent:
  "sent (snd (snd (scheduleLinkedInPosts env0 ok_bad_ok two_dates ''key'' world0))) =
     [draft_request env0 ''ok'' linkedin ''key'' (Iso 1793000000000) False world0,
      draft_request env0 ''bad'' linkedin ''key'' (Iso 1793086400000) False world0,
      draft_request env0 ''ok'' linkedin ''key'' (Iso 1793086400000) False world0]"
  by code_simp


section \<open>Claims about the item schedulers\<close>

text \<open>
  C3 (failure isolation).  With a non-empty date list, every item that has a body is
  dispatched exactly once and gives exactly one outcome, in the order of the items,
  whatever the publishing service answers: the requests sent are as many as the items
  with a body, the \<open>n\<close>-th outcome is \<open>scheduled\<close> with the draft ID when the \<open>n\<close>-th
  answer is a draft, and \<open>failed\<close> with the empty ID when it is an error, and (for date
  strings that are not empty) each outcome records the date selected for its position,
  failed or not.  A failure therefore never stops the items after it.
\<close>

theorem failure_isolation:
  assumes "ds \<noteq> []"
  shows "(\<exists>reqs. sent (snd (snd (scheduleLinkedInPosts E posts ds k w))) = sent w @ reqs
           \<and> length reqs = length (content_positions 0 posts)
           \<and> map (\<lambda>x. (o_status x, o_typefullyId x)) (fst (scheduleLinkedInPosts E posts ds k w)) =
               map (\<lambda>(n, r). outcome_of (fetch E n r)) (enumerate (length (sent w)) reqs))
    \<and> map o_postId (fst (scheduleLinkedInPosts E posts ds k w)) =
        map (\<lambda>j. ''linkedin-post-'' @ string_of_nat j) (content_positions 0 posts)
    \<and> (\<exists>reqs. sent (snd (snd (scheduleTwitterThreads E threads ds k w))) = sent w @ reqs
           \<and> length reqs = length (tweets_positions 0 threads)
           \<and> map (\<lambda>x. (o_status x, o_typefullyId x)) (fst (scheduleTwitterThreads E threads ds k w)) =
               map (\<lambda>(n, r). outcome_of (fetch E n r)) (enumerate (length (sent w)) reqs))
    \<and> map o_postId (fst (scheduleTwitterThreads E threads ds k w)) =
        map (\<lambda>j. ''twitter-thread-'' @ string_of_nat j) (tweets_positions 0 threads)
    \<and> ((\<forall>d \<in> set ds. \<not> falsy d) \<longrightarrow>
          map o_scheduledDate (fst (scheduleLinkedInPosts E posts ds k w)) =
            map (selected_date ds) (content_positions 0 posts)
        \<and> map o_scheduledDate (fst (scheduleTwitterThreads E threads ds k w)) =
            map (selected_date ds) (tweets_positions 0 threads))"
  using assms linkedin_loop_sent [of E k ds 0 posts w] twitter_loop_sent [of E k ds 0 threads w]
  by (simp add: scheduleLinkedInPosts_def scheduleTwitterThreads_def linkedin_loop_postIds
        twitter_loop_postIds linkedin_loop_dates twitter_loop_dates)

theorem failure_isolation_witness:
  "two_dates \<noteq> [] \<and> Raw [] \<notin> set two_dates
   \<and> map (\<lambda>x. (o_status x, o_typefullyId x))
        (fst (scheduleLinkedInPosts env0 ok_bad_ok two_dates ''key'' world0)) =
       [(scheduled, ''d1''), (failed, []), (scheduled, ''d3'')]
   \<and> map o_postId (fst (scheduleLinkedInPosts env0 ok_bad_ok two_dates ''key'' world0)) =
       [''linkedin-post-0'', ''linkedin-post-1'', ''linkedin-post-2'']
   \<and> map o_scheduledDate (fst (scheduleLinkedInPosts env0 ok_bad_ok two_dates ''key'' world0)) =
       [Iso 1793000000000, Iso 1793086400000, Iso 1793086400000]"
proof -
  have ne: "two_dates \<noteq> []" and truthy: "\<forall>d \<in> set two_dates. \<not> falsy d"
    by (simp_all add: two_dates_def falsy_def)
  have sw: "sent world0 = []" by (simp add: world0_def)
  have pos: "content_positions 0 ok_bad_ok = [0, 1, 2]"
    by (simp add: ok_bad_ok_def mk_post_def post_has_content_def)
  from failure_isolation [OF ne, of env0 ok_bad_ok "''key''" world0 "[]"]
  obtain reqs where reqs: "sent (snd (snd (scheduleLinkedInPosts env0 ok_bad_ok two_dates ''key'' world0))) = sent world0 @ reqs"
    and st: "map (\<lambda>x. (o_status x, o_typefullyId x))
        (fst (scheduleLinkedInPosts env0 ok_bad_ok two_dates ''key'' world0)) =
        map (\<lambda>(n, r). outcome_of (fetch env0 n r)) (enumerate (length (sent world0)) reqs)"
    and ids: "map o_postId (fst (scheduleLinkedInPosts env0 ok_bad_ok two_dates ''key'' world0)) =
        map (\<lambda>j. ''linkedin-post-'' @ string_of_nat j) (content_positions 0 ok_bad_ok)"
    and dates: "map o_scheduledDate (fst (scheduleLinkedInPosts env0 ok_bad_ok two_dates ''key'' world0)) =
            map (selected_date two_dates) (content_positions 0 ok_bad_ok)"
    using truthy by blast
  from reqs have r: "reqs = [draft_request env0 ''ok'' linkedin ''key'' (Iso 1793000000000) False world0,
      draft_request env0 ''bad'' linkedin ''key'' (Iso 1793086400000) False world0,
      draft_request env0 ''ok'' linkedin ''key'' (Iso 1793086400000) False world0]"
    unfolding ok_bad_ok_sent sw by simp
  have "map (\<lambda>(n, r). outcome_of (fetch env0 n r)) (enumerate (length (sent world0)) reqs)
      = [(scheduled, ''d1''), (failed, []), (scheduled, ''d3'')]"
    unfolding r sw by code_simp
  moreover have "map (\<lambda>j. ''linkedin-post-'' @ string_of_nat j) [0, 1, 2] =
      [''linkedin-post-0'', ''linkedin-post-1'', ''linkedin-post-2'']"
    by code_simp
  moreover have "map (selected_date two_dates) [0, 1, 2] =
      [Iso 1793000000000, Iso 1793086400000, Iso 1793086400000]"
    by code_simp
  ultimately show ?thesis using st ids dates ne truthy
    by (simp only: pos) (simp add: two_dates_def)
qed

text \<open>
  C5 (fallback clamp).  With a non-empty date list the index \<open>min i (len - 1)\<close> is always
  in range and every position from \<open>len - 1\<close> on selects the last date; running short of
  dates loses no item (there are as many outcomes as items with a body), and each outcome
  and each request carries the date selected for its position (an empty date string is
  replaced by the code's \<open>|| getValidDate("tomorrow")\<close>, hence the condition on it).
\<close>

theorem fallback_date_clamp:
  assumes "ds \<noteq> []"
  shows "(\<forall>i. min i (length ds - 1) < length ds
             \<and> (length ds - 1 \<le> i \<longrightarrow> selected_date ds i = last ds))
    \<and> length (fst (scheduleLinkedInPosts E posts ds k w)) = length (content_positions 0 posts)
    \<and> length (fst (scheduleTwitterThreads E threads ds k w)) = length (tweets_positions 0 threads)
    \<and> ((\<forall>d \<in> set ds. \<not> falsy d) \<longrightarrow>
          map o_scheduledDate (fst (scheduleLinkedInPosts E posts ds k w)) =
            map (selected_date ds) (content_positions 0 posts)
        \<and> map o_scheduledDate (fst (scheduleTwitterThreads E threads ds k w)) =
            map (selected_date ds) (tweets_positions 0 threads)
        \<and> (\<exists>reqs. sent (snd (snd (scheduleLinkedInPosts E posts ds k w))) = sent w @ reqs
              \<and> map r_schedule_date reqs = map (selected_date ds) (content_positions 0 posts))
        \<and> (\<exists>reqs. sent (snd (snd (scheduleTwitterThreads E threads ds k w))) = sent w @ reqs
              \<and> map r_schedule_date reqs = map (selected_date ds) (tweets_positions 0 threads)))"
proof (intro conjI allI impI)
  fix i
  show "min i (length ds - 1) < length ds"
    using assms by (cases ds) auto
next
  show "length (fst (scheduleLinkedInPosts E posts ds k w)) = length (content_positions 0 posts)"
    using assms linkedin_loop_postIds [of E k ds 0 posts w]
    by (simp add: scheduleLinkedInPosts_def) (metis length_map)
next
  show "length (fst (scheduleTwitterThreads E threads ds k w)) = length (tweets_positions 0 threads)"
    using assms twitter_loop_postIds [of E k ds 0 threads w]
    by (simp add: scheduleTwitterThreads_def) (metis length_map)
qed (use assms in \<open>simp_all add: selected_date_last
       scheduleLinkedInPosts_def scheduleTwitterThreads_def linkedin_loop_dates twitter_loop_dates
       linkedin_loop_request_dates twitter_loop_request_dates\<close>)

theorem fallback_date_clamp_witness:
  "two_dates \<noteq> [] \<and> Raw [] \<notin> set two_dates
   \<and> min 2 (length two_dates - 1) < length two_dates
   \<and> length two_dates - 1 \<le> 2 \<and> selected_date two_dates 2 = last two_dates
   \<and> length (fst (scheduleLinkedInPosts env0 ok_bad_ok two_dates ''key'' world0)) = 3
   \<and> map o_scheduledDate (fst (scheduleLinkedInPosts env0 ok_bad_ok two_dates ''key'' world0)) =
       [Iso 1793000000000, Iso 1793086400000, Iso 1793086400000]
   \<and> map o_scheduledDate (fst (scheduleTwitterThreads env0 three_threads two_dates ''key'' world0)) =
       [Iso 1793000000000, Iso 1793086400000]"
proof -
  have ne: "two_dates \<noteq> []" and truthy: "\<forall>d \<in> set two_dates. \<not> falsy d"
    by (simp_all add: two_dates_def falsy_def)
  have pos: "content_positions 0 ok_bad_ok = [0, 1, 2]"
    by (simp add: ok_bad_ok_def mk_post_def post_has_content_def)
  have tpos: "tweets_positions 0 three_threads = [0, 2]"
    by (simp add: three_threads_def mk_thread_def thread_has_tweets_def)
  have sel: "map (selected_date two_dates) [0, 1, 2] =
      [Iso 1793000000000, Iso 1793086400000, Iso 1793086400000]"
    "map (selected_date two_dates) [0, 2] = [Iso 1793000000000, Iso 1793086400000]"
    by code_simp+
  have len: "length two_dates - 1 \<le> 2" by (simp add: two_dates_def)
  from fallback_date_clamp [OF ne, of env0 ok_bad_ok "''key''" world0 three_threads] truthy
  have "min 2 (length two_dates - 1) < length two_dates"
    and "length two_dates - 1 \<le> 2 \<longrightarrow> selected_date two_dates 2 = last two_dates"
    and "length (fst (scheduleLinkedInPosts env0 ok_bad_ok two_dates ''key'' world0)) =
           length (content_positions 0 ok_bad_ok)"
    and "map o_scheduledDate (fst (scheduleLinkedInPosts env0 ok_bad_ok two_dates ''key'' world0)) =
            map (selected_date two_dates) (content_positions 0 ok_bad_ok)"
    and "map o_scheduledDate (fst (scheduleTwitterThreads env0 three_threads two_dates ''key'' world0)) =
            map (selected_date two_dates) (tweets_positions 0 three_threads)"
    by blast+
  then show ?thesis using ne truthy len
    by (simp only: pos tpos sel) (simp add: two_dates_def)
qed

text \<open>
  C7 (skipped items).  The outcomes are exactly the positions whose item has a body
  (for a thread: at least one tweet), in order; a post whose content is empty or missing,
  and a thread with no tweets, has no outcome record under its position.
\<close>

theorem empty_items_give_no_outcome:
  "(ds \<noteq> [] \<longrightarrow>
      map o_postId (fst (scheduleLinkedInPosts E posts ds k w)) =
        map (\<lambda>j. ''linkedin-post-'' @ string_of_nat j) (content_positions 0 posts)
      \<and> map o_postId (fst (scheduleTwitterThreads E threads ds k w)) =
        map (\<lambda>j. ''twitter-thread-'' @ string_of_nat j) (tweets_positions 0 threads))
   \<and> (\<forall>i < length posts. \<not> post_has_content (posts ! i) \<longrightarrow>
        (\<forall>x \<in> set (fst (scheduleLinkedInPosts E posts ds k w)).
           o_postId x \<noteq> ''linkedin-post-'' @ string_of_nat i))
   \<and> (\<forall>i < length threads. \<not> thread_has_tweets (threads ! i) \<longrightarrow>
        (\<forall>x \<in> set (fst (scheduleTwitterThreads E threads ds k w)).
           o_postId x \<noteq> ''twitter-thread-'' @ string_of_nat i))"
proof (intro conjI impI allI ballI)
  assume "ds \<noteq> []"
  then show "map o_postId (fst (scheduleLinkedInPosts E posts ds k w)) =
        map (\<lambda>j. ''linkedin-post-'' @ string_of_nat j) (content_positions 0 posts)"
    by (simp add: scheduleLinkedInPosts_def linkedin_loop_postIds)
next
  assume "ds \<noteq> []"
  then show "map o_postId (fst (scheduleTwitterThreads E threads ds k w)) =
        map (\<lambda>j. ''twitter-thread-'' @ string_of_nat j) (tweets_positions 0 threads)"
    by (simp add: scheduleTwitterThreads_def twitter_loop_postIds)
next
  fix i x
  assume i: "i < length posts" "\<not> post_has_content (posts ! i)"
    and x: "x \<in> set (fst (scheduleLinkedInPosts E posts ds k w))"
  show "o_postId x \<noteq> ''linkedin-post-'' @ string_of_nat i"
  proof
    assume eq: "o_postId x = ''linkedin-post-'' @ string_of_nat i"
    from linkedin_outcome_position [OF x]
    obtain j where j: "j \<in> set (content_positions 0 posts)"
      and "o_postId x = ''linkedin-post-'' @ string_of_nat j" by auto
    with eq have "j = i" by (simp add: string_of_nat_inj)
    with j i show False by (auto dest: content_positions_mem)
  qed
next
  fix i x
  assume i: "i < length threads" "\<not> thread_has_tweets (threads ! i)"
    and x: "x \<in> set (fst (scheduleTwitterThreads E threads ds k w))"
  show "o_postId x \<noteq> ''twitter-thread-'' @ string_of_nat i"
  proof
    assume eq: "o_postId x = ''twitter-thread-'' @ string_of_nat i"
    from twitter_outcome_position [OF x]
    obtain j where j: "j \<in> set (tweets_positions 0 threads)"
      and "o_postId x = ''twitter-thread-'' @ string_of_nat j" by auto
    with eq have "j = i" by (simp add: string_of_nat_inj)
    with j i show False by (auto dest: tweets_positions_mem)
  qed
qed

theorem empty_items_give_no_outcome_witness:
  "two_dates \<noteq> [] \<and> 1 < length with_gaps \<and> \<not> post_has_content (with_gaps ! 1)
   \<and> 1 < length three_threads \<and> \<not> thread_has_tweets (three_threads ! 1)
   \<and> map o_postId (fst (scheduleLinkedInPosts env0 with_gaps two_dates ''key'' world0)) =
       [''linkedin-post-0'', ''linkedin-post-2'']
   \<and> map o_postId (fst (scheduleTwitterThreads env0 three_threads two_dates ''key'' world0)) =
       [''twitter-thread-0'', ''twitter-thread-2'']
   \<and> ''linkedin-post-1'' \<notin>
         o_postId ` set (fst (scheduleLinkedInPosts env0 with_gaps two_dates ''key'' world0))
   \<and> ''twitter-thread-1'' \<notin>
         o_postId ` set (fst (scheduleTwitterThreads env0 three_threads two_dates ''key'' world0))"
proof -
  have ne: "two_dates \<noteq> []" by (simp add: two_dates_def)
  have p1: "1 < length with_gaps" "\<not> post_has_content (with_gaps ! 1)"
    by (simp_all add: with_gaps_def mk_post_def post_has_content_def)
  have t1: "1 < length three_threads" "\<not> thread_has_tweets (three_threads ! 1)"
    by (simp_all add: three_threads_def mk_thread_def thread_has_tweets_def)
  have pos: "content_positions 0 with_gaps = [0, 2]"
    by (simp add: with_gaps_def mk_post_def post_has_content_def)
  have tpos: "tweets_positions 0 three_threads = [0, 2]"
    by (simp add: three_threads_def mk_thread_def thread_has_tweets_def)
  have ids: "map (\<lambda>j. ''linkedin-post-'' @ string_of_nat j) [0, 2] =
      [''linkedin-post-0'', ''linkedin-post-2'']"
    "map (\<lambda>j. ''twitter-thread-'' @ string_of_nat j) [0, 2] =
      [''twitter-thread-0'', ''twitter-thread-2'']"
    "''linkedin-post-'' @ string_of_nat 1 = ''linkedin-post-1''"
    "''twitter-thread-'' @ string_of_nat 1 = ''twitter-thread-1''"
    by code_simp+
  from empty_items_give_no_outcome [of two_dates env0 with_gaps "''key''" world0 three_threads]
  have "map o_postId (fst (scheduleLinkedInPosts env0 with_gaps two_dates ''key'' world0)) =
        map (\<lambda>j. ''linkedin-post-'' @ string_of_nat j) (content_positions 0 with_gaps)"
    and "map o_postId (fst (scheduleTwitterThreads env0 three_threads two_dates ''key'' world0)) =
        map (\<lambda>j. ''twitter-thread-'' @ string_of_nat j) (tweets_positions 0 three_threads)"
    and "\<forall>x \<in> set (fst (scheduleLinkedInPosts env0 with_gaps two_dates ''key'' world0)).
           o_postId x \<noteq> ''linkedin-post-'' @ string_of_nat 1"
    and "\<forall>x \<in> set (fst (scheduleTwitterThreads env0 three_threads two_dates ''key'' world0)).
           o_postId x \<noteq> ''twitter-thread-'' @ string_of_nat 1"
    using ne p1 t1 by blast+
  then show ?thesis using ne p1 t1
    by (simp only: pos tpos ids) auto
qed


section \<open>The campaign store\<close>

lemma index_ids_simps [simp]:
  "kv_index w = None \<Longrightarrow> index_ids w = []"
  "kv_index w = Some ids \<Longrightarrow> index_ids w = ids"
  by (simp_all add: index_ids_def)

lemma route_index_ids_value:
  "kv_client E = DataIsValue \<Longrightarrow> route_index_ids E w = index_ids w"
  "kv_client E \<noteq> DataIsValue \<Longrightarrow> route_index_ids E w = []"
  by (simp_all add: route_index_ids_def index_ids_def data_value_def split: option.splits)

lemma index_update_attempt_faults:
  "fst (index_update_attempt E i w) \<longleftrightarrow>
     \<not> kv_fault E (kv_ops w) \<and> \<not> kv_fault E (Suc (kv_ops w))"
  "kv_ops (snd (index_update_attempt E i w)) =
     (if kv_fault E (kv_ops w) then kv_ops w + 1 else kv_ops w + 2)"
  by (simp_all add: index_update_attempt_def kv_get_index_def kv_set_index_def kv_tick_def Let_def)

lemma index_update_attempt_True:
  assumes "fst (index_update_attempt E i w)"
  shows "kv_index (snd (index_update_attempt E i w)) =
           Some (filter (\<lambda>cid. cid \<noteq> i) (route_index_ids E w))"
    and "kv_campaigns (snd (index_update_attempt E i w)) = kv_campaigns w"
  using assms
  by (auto simp: index_update_attempt_def kv_get_index_def kv_set_index_def kv_tick_def
        route_index_ids_def Let_def split: if_splits option.splits)

lemma index_update_attempt_False:
  assumes "\<not> fst (index_update_attempt E i w)"
  shows "kv_index (snd (index_update_attempt E i w)) = kv_index w"
    and "kv_campaigns (snd (index_update_attempt E i w)) = kv_campaigns w"
  using assms
  by (auto simp: index_update_attempt_def kv_get_index_def kv_set_index_def kv_tick_def
        Let_def split: if_splits option.splits)

lemma three_attempts:
  "index_update_loop E i 3 0 w =
     (let a1 = index_update_attempt E i w;
          a2 = index_update_attempt E i (snd a1);
          a3 = index_update_attempt E i (snd a2)
      in if fst a1 then (True, snd a1)
         else if fst a2 then (True, snd a2)
         else if fst a3 then (True, snd a3)
         else (False, snd a3))"
  by (simp add: index_update_loop.simps [of E i 3 0] index_update_loop.simps [of E i 3 "Suc 0"]
        index_update_loop.simps [of E i 3 "Suc (Suc 0)"]
        index_update_loop.simps [of E i 3 "Suc (Suc (Suc 0))"] Let_def
        split: prod.splits bool.splits)

lemma route_delete_unfold:
  assumes "trim i \<noteq> []" and "kv_campaigns w i = Some c" and "\<not> kv_fault E (kv_ops w)"
  shows "route_delete E i w =
     (let r = index_update_loop E i 3 0 (kv_tick w)
      in if \<not> fst r then (JsonError 500 ''Failed to update campaign index'', snd r)
         else if kv_fault E (kv_ops (snd r))
              then (JsonError 500 ''Failed to delete campaign'', kv_tick (snd r))
              else (JsonOk (''Campaign '' @ i @ '' deleted''),
                    kv_tick ((snd r)\<lparr>kv_campaigns := (kv_campaigns (snd r))(i := None)\<rparr>)))"
  using assms
  by (simp add: route_delete_def kv_get_campaign_def kv_delete_campaign_def Let_def
        case_prod_beta)

lemma getCampaignIndex_world:
  "kv_campaigns (snd (getCampaignIndex E w)) = kv_campaigns w"
  "kv_index (snd (getCampaignIndex E w)) = kv_index w"
  by (auto simp: getCampaignIndex_def kv_get_index_def kv_tick_def split: option.splits)

lemma getCampaignIndex_subset:
  "getCampaignIndex E w = (Returned ids, w') \<Longrightarrow> set ids \<subseteq> set (index_ids w)"
  by (auto simp: getCampaignIndex_def kv_get_index_def data_json_def index_ids_def
        split: if_splits option.splits)

lemma getCampaignIndex_not_member:
  "kv_client E \<noteq> DataJsonMember \<Longrightarrow> getCampaignIndex E w = (Returned ids, w') \<Longrightarrow> ids = []"
  by (auto simp: getCampaignIndex_def kv_get_index_def data_json_def
        split: if_splits option.splits)

lemma save_overwrites_index:
  assumes "kv_client E \<noteq> DataJsonMember" and "saveCampaign E c w = (True, w')"
  shows "kv_index w' = Some [c_id c]"
proof -
  obtain r w1 where g: "getCampaignIndex E (snd (kv_set_campaign E (c_id c) c w)) = (r, w1)"
    by (cases "getCampaignIndex E (snd (kv_set_campaign E (c_id c) c w))") auto
  show ?thesis
  proof (cases r)
    case Threw
    with assms(2) g show ?thesis
      by (auto simp: saveCampaign_def updateCampaignIndex_def case_prod_beta
            split: if_splits attempt.splits)
  next
    case (Returned ids)
    with getCampaignIndex_not_member [OF assms(1)] g have "ids = []" by simp
    with assms(2) g Returned show ?thesis
      by (auto simp: saveCampaign_def updateCampaignIndex_def case_prod_beta kv_set_index_def
            kv_tick_def split: if_splits attempt.splits)
  qed
qed

lemma getCampaign_not_method:
  "kv_client E \<noteq> DataJsonMethod \<Longrightarrow> fst (getCampaign E i w) = None"
  by (simp add: getCampaign_def kv_get_campaign_def data_json_call_def split: option.splits)

lemma route_delete_ok:
  assumes "route_delete E i w = (JsonOk m, w')"
  shows "kv_index w' = Some (filter (\<lambda>cid. cid \<noteq> i) (route_index_ids E w))"
    and "kv_campaigns w' = (kv_campaigns w)(i := None)"
proof -
  from assms have t: "trim i \<noteq> []" by (auto simp: route_delete_def split: if_splits)
  from assms t have nf: "\<not> kv_fault E (kv_ops w)"
    by (auto simp: route_delete_def kv_get_campaign_def split: if_splits)
  from assms t nf obtain c where c: "kv_campaigns w i = Some c"
    by (cases "kv_campaigns w i") (auto simp: route_delete_def kv_get_campaign_def)
  let ?r = "index_update_loop E i 3 0 (kv_tick w)"
  from assms have ok: "fst ?r" and nd: "\<not> kv_fault E (kv_ops (snd ?r))"
    and w': "w' = kv_tick ((snd ?r)\<lparr>kv_campaigns := (kv_campaigns (snd ?r))(i := None)\<rparr>)"
    unfolding route_delete_unfold [OF t c nf] by (auto simp: Let_def split: if_splits)
  define a1 where "a1 = index_update_attempt E i (kv_tick w)"
  define a2 where "a2 = index_update_attempt E i (snd a1)"
  define a3 where "a3 = index_update_attempt E i (snd a2)"
  have base: "route_index_ids E (kv_tick w) = route_index_ids E w"
    "kv_campaigns (kv_tick w) = kv_campaigns w"
    by (simp_all add: route_index_ids_def kv_tick_def)
  have same: "kv_index v = kv_index v' \<Longrightarrow> route_index_ids E v = route_index_ids E v'" for v v'
    by (simp add: route_index_ids_def)
  have r: "?r = (if fst a1 then (True, snd a1) else if fst a2 then (True, snd a2)
                 else if fst a3 then (True, snd a3) else (False, snd a3))"
    by (simp add: three_attempts Let_def a1_def a2_def a3_def)
  have "kv_index (snd ?r) = Some (filter (\<lambda>cid. cid \<noteq> i) (route_index_ids E w))
        \<and> kv_campaigns (snd ?r) = kv_campaigns w"
  proof (cases "fst a1")
    case True
    then show ?thesis
      using index_update_attempt_True [of E i "kv_tick w"] base by (simp add: r a1_def)
  next
    case n1: False
    then have f1: "kv_index (snd a1) = kv_index (kv_tick w)" "kv_campaigns (snd a1) = kv_campaigns w"
      using index_update_attempt_False [of E i "kv_tick w"] base by (simp_all add: a1_def)
    then have i1: "route_index_ids E (snd a1) = route_index_ids E w"
      using same [of "snd a1" "kv_tick w"] base by simp
    show ?thesis
    proof (cases "fst a2")
      case True
      then show ?thesis
        using index_update_attempt_True [of E i "snd a1"] n1 f1 i1 by (simp add: r a2_def)
    next
      case n2: False
      then have f2: "kv_index (snd a2) = kv_index (snd a1)" "kv_campaigns (snd a2) = kv_campaigns w"
        using index_update_attempt_False [of E i "snd a1"] f1 by (simp_all add: a2_def)
      then have i2: "route_index_ids E (snd a2) = route_index_ids E w"
        using same [of "snd a2" "snd a1"] i1 by simp
      from ok n1 n2 have "fst a3" by (simp add: r split: if_splits)
      then show ?thesis
        using index_update_attempt_True [of E i "snd a2"] n1 n2 f2 i2 by (simp add: r a3_def)
    qed
  qed
  then show "kv_index w' = Some (filter (\<lambda>cid. cid \<noteq> i) (route_index_ids E w))"
    and "kv_campaigns w' = (kv_campaigns w)(i := None)"
    by (simp_all add: w' kv_tick_def)
qed

lemma route_delete_unindexes:
  assumes "route_delete E i w = (JsonOk m, w')"
  shows "i \<notin> set (index_ids w')"
  using route_delete_ok(1) [OF assms] by simp

lemma route_delete_wipes_index:
  assumes "kv_client E \<noteq> DataIsValue" and "route_delete E i w = (JsonOk m, w')"
  shows "kv_index w' = Some []"
  using route_delete_ok(1) [OF assms(2)] assms(1) by (simp add: route_index_ids_value)

lemma save_step_own:
  assumes "task_inv c other t w"
  shows "task_inv c other (fst (save_step E t w)) (snd (save_step E t w))"
proof (cases t)
  case (SaveStart c')
  with assms show ?thesis
    by (auto simp: kv_set_campaign_def kv_tick_def)
next
  case (SaveIndexing c')
  with assms have c: "c' = c" "isValidId (c_id c)" "kv_campaigns w (c_id c) = Some c" by simp_all
  obtain r w1 where g: "getCampaignIndex E w = (r, w1)"
    by (cases "getCampaignIndex E w") auto
  with getCampaignIndex_world [of E w]
  have w1: "kv_campaigns w1 = kv_campaigns w" "kv_index w1 = kv_index w" by simp_all
  then have i1: "index_ids w1 = index_ids w" by (simp add: index_ids_def)
  show ?thesis
  proof (cases r)
    case Threw
    with SaveIndexing c g show ?thesis by simp
  next
    case (Returned ids)
    with getCampaignIndex_subset g have "set ids \<subseteq> set (index_ids w)" by blast
    with SaveIndexing c g Returned w1 i1 show ?thesis by auto
  qed
next
  case (SaveWriting c' ids)
  with assms show ?thesis
    by (auto simp: kv_set_index_def kv_tick_def index_ids_def)
next
  case (SaveDone ok)
  with assms show ?thesis by simp
qed

lemma save_step_world:
  assumes "task_inv c2 other2 t2 w"
  shows "\<forall>k. k \<noteq> c_id c2 \<longrightarrow> kv_campaigns (snd (save_step E t2 w)) k = kv_campaigns w k"
    and "index_ids (snd (save_step E t2 w)) = index_ids w
         \<or> c_id c2 \<in> set (index_ids (snd (save_step E t2 w)))"
proof -
  show "\<forall>k. k \<noteq> c_id c2 \<longrightarrow> kv_campaigns (snd (save_step E t2 w)) k = kv_campaigns w k"
    using assms getCampaignIndex_world(1) [of E w]
    by (cases t2)
       (auto simp: kv_set_campaign_def kv_set_index_def kv_tick_def case_prod_beta
          split: attempt.splits)
  show "index_ids (snd (save_step E t2 w)) = index_ids w
         \<or> c_id c2 \<in> set (index_ids (snd (save_step E t2 w)))"
    using assms getCampaignIndex_world(2) [of E w]
    by (cases t2)
       (auto simp: kv_set_campaign_def kv_set_index_def kv_tick_def case_prod_beta index_ids_def
          split: attempt.splits)
qed

lemma save_step_other:
  assumes "task_inv c (c_id c2) t w" and "task_inv c2 other2 t2 w" and "c_id c \<noteq> c_id c2"
  shows "task_inv c (c_id c2) t (snd (save_step E t2 w))"
  using assms save_step_world [OF assms(2), of E]
  by (cases t) auto

lemma interleave_inv:
  assumes "c_id a \<noteq> c_id b"
  shows "task_inv a (c_id b) ta w \<Longrightarrow> task_inv b (c_id a) tb w \<Longrightarrow>
         interleave E sched ta tb w = (ta', tb', w') \<Longrightarrow>
         task_inv a (c_id b) ta' w' \<and> task_inv b (c_id a) tb' w'"
proof (induction sched arbitrary: ta tb w)
  case Nil
  then show ?case by simp
next
  case (Cons second sched)
  show ?case
  proof (cases second)
    case True
    let ?tb = "fst (save_step E tb w)" and ?w = "snd (save_step E tb w)"
    have "task_inv b (c_id a) ?tb ?w" using Cons.prems(2) by (rule save_step_own)
    moreover have "task_inv a (c_id b) ta ?w"
      using Cons.prems(1,2) assms by (rule save_step_other)
    moreover have "interleave E sched ta ?tb ?w = (ta', tb', w')"
      using Cons.prems(3) True by (simp add: case_prod_beta)
    ultimately show ?thesis using Cons.IH by blast
  next
    case False
    let ?ta = "fst (save_step E ta w)" and ?w = "snd (save_step E ta w)"
    have "task_inv a (c_id b) ?ta ?w" using Cons.prems(1) by (rule save_step_own)
    moreover have "task_inv b (c_id a) tb ?w"
      using Cons.prems(2,1) assms [symmetric] by (rule save_step_other)
    moreover have "interleave E sched ?ta tb ?w = (ta', tb', w')"
      using Cons.prems(3) False by (simp add: case_prod_beta)
    ultimately show ?thesis using Cons.IH by blast
  qed
qed

lemma save_steps_first:
  "interleave E [False, False, False] (SaveStart c) t w =
     (SaveDone (fst (saveCampaign E c w)), t, snd (saveCampaign E c w))"
  by (auto simp: saveCampaign_def updateCampaignIndex_def case_prod_beta
        split: if_splits attempt.splits)

lemma save_steps_second:
  "interleave E [True, True, True] t (SaveStart c) w =
     (t, SaveDone (fst (saveCampaign E c w)), snd (saveCampaign E c w))"
  by (auto simp: saveCampaign_def updateCampaignIndex_def case_prod_beta
        split: if_splits attempt.splits)

lemma interleave_append:
  "interleave E (xs @ ys) a b w =
     (case interleave E xs a b w of (a', b', w') \<Rightarrow> interleave E ys a' b' w')"
  by (induction xs arbitrary: a b w) (simp_all add: case_prod_beta)

lemma sequential_saves:
  "interleave E [False, False, False, True, True, True] (SaveStart a) (SaveStart b) w =
     (SaveDone (fst (saveCampaign E a w)),
      SaveDone (fst (saveCampaign E b (snd (saveCampaign E a w)))),
      snd (saveCampaign E b (snd (saveCampaign E a w))))"
  using interleave_append [of E "[False, False, False]" "[True, True, True]" "SaveStart a" "SaveStart b" w]
  by (simp only: append.simps save_steps_first save_steps_second prod.case)

text \<open>
  C8 (index invariant).  The claim is what the store is written to do: \<open>updateCampaignIndex\<close>
  adds an ID to the list it has read unless the list holds it, and the route filters the
  list it has read.  But the two files read the index record through different paths,
  \<open>data.json.campaignIds\<close> in the store and \<open>data.campaignIds\<close> in the route, and no shape
  of \<open>data\<close> gives the list on both (\<open>save_overwrites_index\<close>,
  \<open>route_delete_wipes_index\<close>).  Where \<open>data\<close> is the stored value, the shape the route
  reads, every save reads the empty list and writes an index of its own ID only: after
  the saves of \<open>A\<close> and \<open>B\<close>, both with success, the index is \<open>[B]\<close> and \<open>A\<close> occurs in it
  zero times.  Where \<open>data.json\<close> is the stored value, the saves keep both IDs and the
  delete of \<open>A\<close> writes the empty index.
\<close>

theorem saves_overwrite_the_index:
  "fst (saveCampaign env_runtime campaign_A world0)
   \<and> fst (saveCampaign env_runtime campaign_B (snd (saveCampaign env_runtime campaign_A world0)))
   \<and> index_ids (snd (saveCampaign env_runtime campaign_A world0)) = [''A'']
   \<and> index_ids (snd (saveCampaign env_runtime campaign_B
        (snd (saveCampaign env_runtime campaign_A world0)))) = [''B'']
   \<and> count_list (index_ids (snd (saveCampaign env_runtime campaign_B
        (snd (saveCampaign env_runtime campaign_A world0))))) ''A'' = 0
   \<and> index_ids (snd (saveCampaign env0 campaign_B (snd (saveCampaign env0 campaign_A world0))))
       = [''B'']
   \<and> index_ids (snd (saveCampaign env_member campaign_B
        (snd (saveCampaign env_member campaign_A world0)))) = [''A'', ''B'']
   \<and> fst (route_delete env_member ''A'' (snd (saveCampaign env_member campaign_B
        (snd (saveCampaign env_member campaign_A world0))))) = JsonOk ''Campaign A deleted''
   \<and> index_ids (snd (route_delete env_member ''A'' (snd (saveCampaign env_member campaign_B
        (snd (saveCampaign env_member campaign_A world0)))))) = []"
  by code_simp

text \<open>
  C9 (bounded retry on delete).  For a campaign that exists: the route makes a first
  attempt of read, filter, write on the index, a second one when the first has failed and
  a third one when the second has failed.  After the first attempt that succeeds it makes
  no other: it deletes the record, and answers 200 when the deletion returns and 500 when
  it throws; the index is the filtered one in both cases.  When the three attempts have
  failed it makes no fourth and answers 500 with \<open>Failed to update campaign index\<close>; the
  record and the index are as before.  So whenever the record is gone, an attempt on the
  index has succeeded before.  An attempt fails exactly when its read or its write throws
  (\<open>index_update_attempt_faults\<close>).
\<close>

theorem delete_retries_index_update:
  assumes "trim i \<noteq> []" and "kv_campaigns w i = Some c" and "\<not> kv_fault E (kv_ops w)"
  shows "let a1 = index_update_attempt E i (kv_tick w);
             a2 = index_update_attempt E i (snd a1);
             a3 = index_update_attempt E i (snd a2);
             wk = (if fst a1 then snd a1 else if fst a2 then snd a2 else snd a3);
             r = route_delete E i w
         in (fst a1 \<or> fst a2 \<or> fst a3 \<longrightarrow>
               kv_index (snd r) = Some (filter (\<lambda>cid. cid \<noteq> i) (route_index_ids E w))
               \<and> kv_ops (snd r) = Suc (kv_ops wk)
               \<and> (if kv_fault E (kv_ops wk)
                   then fst r = JsonError 500 ''Failed to delete campaign''
                        \<and> kv_campaigns (snd r) = kv_campaigns w
                   else fst r = JsonOk (''Campaign '' @ i @ '' deleted'')
                        \<and> kv_campaigns (snd r) = (kv_campaigns w)(i := None)))
          \<and> (\<not> fst a1 \<and> \<not> fst a2 \<and> \<not> fst a3 \<longrightarrow>
               r = (JsonError 500 ''Failed to update campaign index'', snd a3)
               \<and> kv_campaigns (snd a3) = kv_campaigns w \<and> kv_index (snd a3) = kv_index w)
          \<and> (kv_campaigns (snd r) i = None \<longrightarrow>
               (fst a1 \<or> fst a2 \<or> fst a3)
               \<and> kv_index (snd r) = Some (filter (\<lambda>cid. cid \<noteq> i) (route_index_ids E w)))"
proof -
  define a1 where "a1 = index_update_attempt E i (kv_tick w)"
  define a2 where "a2 = index_update_attempt E i (snd a1)"
  define a3 where "a3 = index_update_attempt E i (snd a2)"
  define wk where "wk = (if fst a1 then snd a1 else if fst a2 then snd a2 else snd a3)"
  define r where "r = route_delete E i w"
  let ?new = "Some (filter (\<lambda>cid. cid \<noteq> i) (route_index_ids E w))"
  have t: "route_index_ids E (kv_tick w) = route_index_ids E w"
    "kv_campaigns (kv_tick w) = kv_campaigns w" "kv_index (kv_tick w) = kv_index w"
    by (simp_all add: route_index_ids_def kv_tick_def)
  have same: "kv_index v = kv_index v' \<Longrightarrow> route_index_ids E v = route_index_ids E v'" for v v'
    by (simp add: route_index_ids_def)
  \<comment> \<open>the worlds after failed attempts\<close>
  have f1: "kv_index (snd a1) = kv_index w" "kv_campaigns (snd a1) = kv_campaigns w" if "\<not> fst a1"
    using index_update_attempt_False [of E i "kv_tick w"] that t by (simp_all add: a1_def)
  have f2: "kv_index (snd a2) = kv_index w" "kv_campaigns (snd a2) = kv_campaigns w"
    if "\<not> fst a1" "\<not> fst a2"
    using index_update_attempt_False [of E i "snd a1"] that f1 by (simp_all add: a2_def)
  have f3: "kv_index (snd a3) = kv_index w" "kv_campaigns (snd a3) = kv_campaigns w"
    if "\<not> fst a1" "\<not> fst a2" "\<not> fst a3"
    using index_update_attempt_False [of E i "snd a2"] that f2 by (simp_all add: a3_def)
  \<comment> \<open>the world after the first attempt that succeeds\<close>
  have s1: "kv_index (snd a1) = ?new" "kv_campaigns (snd a1) = kv_campaigns w" if "fst a1"
    using index_update_attempt_True [of E i "kv_tick w"] that t by (simp_all add: a1_def)
  have s2: "kv_index (snd a2) = ?new" "kv_campaigns (snd a2) = kv_campaigns w"
    if "\<not> fst a1" "fst a2"
    using index_update_attempt_True [of E i "snd a1"] that f1 same [of "snd a1" w]
    by (simp_all add: a2_def)
  have s3: "kv_index (snd a3) = ?new" "kv_campaigns (snd a3) = kv_campaigns w"
    if "\<not> fst a1" "\<not> fst a2" "fst a3"
    using index_update_attempt_True [of E i "snd a2"] that f2 same [of "snd a2" w]
    by (simp_all add: a3_def)
  have wk: "kv_index wk = ?new" "kv_campaigns wk = kv_campaigns w" if "fst a1 \<or> fst a2 \<or> fst a3"
    using that s1 s2 s3 by (auto simp: wk_def)
  have loop: "index_update_loop E i 3 0 (kv_tick w) =
      (if fst a1 \<or> fst a2 \<or> fst a3 then (True, wk) else (False, snd a3))"
    by (simp add: three_attempts Let_def a1_def [symmetric] a2_def [symmetric]
          a3_def [symmetric] wk_def)
  have r: "r = (if \<not> (fst a1 \<or> fst a2 \<or> fst a3)
                then (JsonError 500 ''Failed to update campaign index'', snd a3)
                else if kv_fault E (kv_ops wk)
                     then (JsonError 500 ''Failed to delete campaign'', kv_tick wk)
                     else (JsonOk (''Campaign '' @ i @ '' deleted''),
                           kv_tick (wk\<lparr>kv_campaigns := (kv_campaigns wk)(i := None)\<rparr>)))"
    unfolding r_def route_delete_unfold [OF assms] loop by (simp add: Let_def)
  have ok: "kv_index (snd r) = ?new \<and> kv_ops (snd r) = Suc (kv_ops wk)
      \<and> (if kv_fault E (kv_ops wk)
          then fst r = JsonError 500 ''Failed to delete campaign''
               \<and> kv_campaigns (snd r) = kv_campaigns w
          else fst r = JsonOk (''Campaign '' @ i @ '' deleted'')
               \<and> kv_campaigns (snd r) = (kv_campaigns w)(i := None))"
    if "fst a1 \<or> fst a2 \<or> fst a3"
    using that wk [OF that] by (simp add: r kv_tick_def)
  have none: "r = (JsonError 500 ''Failed to update campaign index'', snd a3)
      \<and> kv_campaigns (snd a3) = kv_campaigns w \<and> kv_index (snd a3) = kv_index w"
    if "\<not> fst a1 \<and> \<not> fst a2 \<and> \<not> fst a3"
    using that f3 by (simp add: r)
  have gone: "(fst a1 \<or> fst a2 \<or> fst a3) \<and> kv_index (snd r) = ?new"
    if g: "kv_campaigns (snd r) i = None"
  proof (cases "fst a1 \<or> fst a2 \<or> fst a3")
    case True
    with ok show ?thesis by simp
  next
    case False
    with none have "kv_campaigns (snd r) = kv_campaigns w" by simp
    with g assms(2) show ?thesis by simp
  qed
  from ok none gone show ?thesis
    unfolding Let_def a1_def [symmetric] a2_def [symmetric] a3_def [symmetric]
      wk_def [symmetric] r_def [symmetric]
    by blast
qed

theorem delete_retries_index_update_witness:
  "trim ''A'' \<noteq> [] \<and> kv_campaigns world_AB ''A'' = Some campaign_A
   \<and> \<not> fst (index_update_attempt env_write_fails_once ''A'' (kv_tick world_AB))
   \<and> fst (route_delete env_write_fails_once ''A'' world_AB) = JsonOk ''Campaign A deleted''
   \<and> kv_index (snd (route_delete env_write_fails_once ''A'' world_AB)) = Some [''B'']
   \<and> kv_campaigns (snd (route_delete env_write_fails_once ''A'' world_AB)) ''A'' = None
   \<and> kv_ops (snd (route_delete env_write_fails_once ''A'' world_AB)) = 6
   \<and> \<not> fst (index_update_attempt env_read_fails_twice ''A'' (kv_tick world_AB))
   \<and> \<not> fst (index_update_attempt env_read_fails_twice ''A''
              (snd (index_update_attempt env_read_fails_twice ''A'' (kv_tick world_AB))))
   \<and> fst (route_delete env_read_fails_twice ''A'' world_AB) = JsonOk ''Campaign A deleted''
   \<and> kv_index (snd (route_delete env_read_fails_twice ''A'' world_AB)) = Some [''B'']
   \<and> kv_campaigns (snd (route_delete env_read_fails_twice ''A'' world_AB)) ''A'' = None
   \<and> fst (route_delete env_index_down ''A'' world_AB) =
       JsonError 500 ''Failed to update campaign index''
   \<and> kv_index (snd (route_delete env_index_down ''A'' world_AB)) = Some [''A'', ''B'']
   \<and> kv_campaigns (snd (route_delete env_index_down ''A'' world_AB)) ''A'' = Some campaign_A
   \<and> kv_ops (snd (route_delete env_index_down ''A'' world_AB)) = 4
   \<and> \<not> kv_fault env_index_down 4"
proof -
  have h1: "trim ''A'' \<noteq> []" by code_simp
  have h2: "kv_campaigns world_AB ''A'' = Some campaign_A"
    by (simp add: world_AB_def)
  have ops: "kv_ops world_AB = 0" "kv_index world_AB = Some [''A'', ''B'']"
    by (simp_all add: world_AB_def world0_def)
  have ids: "route_index_ids env_write_fails_once world_AB = [''A'', ''B'']"
    "route_index_ids env_read_fails_twice world_AB = [''A'', ''B'']"
    by code_simp+
  have nf: "\<not> kv_fault env_write_fails_once (kv_ops world_AB)"
    "\<not> kv_fault env_read_fails_twice (kv_ops world_AB)"
    "\<not> kv_fault env_index_down (kv_ops world_AB)"
    "\<not> kv_fault env_index_down 4"
    unfolding ops
    by (simp_all add: env_write_fails_once_def env_read_fails_twice_def env_index_down_def)
  \<comment> \<open>the first write of the index throws, the second attempt succeeds\<close>
  have a: "\<not> fst (index_update_attempt env_write_fails_once ''A'' (kv_tick world_AB))"
    "fst (index_update_attempt env_write_fails_once ''A''
            (snd (index_update_attempt env_write_fails_once ''A'' (kv_tick world_AB))))"
    "kv_ops (snd (index_update_attempt env_write_fails_once ''A''
            (snd (index_update_attempt env_write_fails_once ''A'' (kv_tick world_AB))))) = 5"
    "\<not> kv_fault env_write_fails_once 5"
    by code_simp+
  from delete_retries_index_update [OF h1 h2 nf(1)] a
  have A: "fst (route_delete env_write_fails_once ''A'' world_AB) = JsonOk ''Campaign A deleted''"
    "kv_index (snd (route_delete env_write_fails_once ''A'' world_AB)) = Some [''B'']"
    "kv_campaigns (snd (route_delete env_write_fails_once ''A'' world_AB)) ''A'' = None"
    "kv_ops (snd (route_delete env_write_fails_once ''A'' world_AB)) = 6"
    by (simp_all add: Let_def ids)
  \<comment> \<open>the first two reads of the index throw, the third attempt succeeds\<close>
  have b: "\<not> fst (index_update_attempt env_read_fails_twice ''A'' (kv_tick world_AB))"
    "\<not> fst (index_update_attempt env_read_fails_twice ''A''
            (snd (index_update_attempt env_read_fails_twice ''A'' (kv_tick world_AB))))"
    "fst (index_update_attempt env_read_fails_twice ''A''
            (snd (index_update_attempt env_read_fails_twice ''A''
               (snd (index_update_attempt env_read_fails_twice ''A'' (kv_tick world_AB))))))"
    "\<not> kv_fault env_read_fails_twice
         (kv_ops (snd (index_update_attempt env_read_fails_twice ''A''
            (snd (index_update_attempt env_read_fails_twice ''A''
               (snd (index_update_attempt env_read_fails_twice ''A'' (kv_tick world_AB))))))))"
    by code_simp+
  from delete_retries_index_update [OF h1 h2 nf(2)] b
  have B: "fst (route_delete env_read_fails_twice ''A'' world_AB) = JsonOk ''Campaign A deleted''"
    "kv_index (snd (route_delete env_read_fails_twice ''A'' world_AB)) = Some [''B'']"
    "kv_campaigns (snd (route_delete env_read_fails_twice ''A'' world_AB)) ''A'' = None"
    by (simp_all add: Let_def ids)
  \<comment> \<open>three attempts fail; a fourth is not made\<close>
  have c: "\<not> fst (index_update_attempt env_index_down ''A'' (kv_tick world_AB))"
    "\<not> fst (index_update_attempt env_index_down ''A''
            (snd (index_update_attempt env_index_down ''A'' (kv_tick world_AB))))"
    "\<not> fst (index_update_attempt env_index_down ''A''
            (snd (index_update_attempt env_index_down ''A''
               (snd (index_update_attempt env_index_down ''A'' (kv_tick world_AB))))))"
    "kv_ops (snd (index_update_attempt env_index_down ''A''
            (snd (index_update_attempt env_index_down ''A''
               (snd (index_update_attempt env_index_down ''A'' (kv_tick world_AB))))))) = 4"
    by code_simp+
  from delete_retries_index_update [OF h1 h2 nf(3)] c
  have C: "route_delete env_index_down ''A'' world_AB =
       (JsonError 500 ''Failed to update campaign index'',
        snd (index_update_attempt env_index_down ''A''
            (snd (index_update_attempt env_index_down ''A''
               (snd (index_update_attempt env_index_down ''A'' (kv_tick world_AB)))))))"
    "kv_campaigns (snd (index_update_attempt env_index_down ''A''
            (snd (index_update_attempt env_index_down ''A''
               (snd (index_update_attempt env_index_down ''A'' (kv_tick world_AB))))))) =
       kv_campaigns world_AB"
    "kv_index (snd (index_update_attempt env_index_down ''A''
            (snd (index_update_attempt env_index_down ''A''
               (snd (index_update_attempt env_index_down ''A'' (kv_tick world_AB))))))) =
       kv_index world_AB"
    by (simp_all add: Let_def)
  show ?thesis
    using h1 h2 a(1) b(1,2) A B nf(4) by (simp add: C c(4) ops h2)
qed

text \<open>
  C10 (concurrent saves).  Two saves in flight may interleave at their awaits, and nothing
  protects the read-modify-write of the index: when both saves have read the index before
  either writes it, the second write overwrites the first.  What holds of two saves that
  both return \<open>true\<close>, under every interleaving and every shape of \<open>data\<close>: both records
  are stored, and the index holds the ID of at least one of the two campaigns, the one
  whose save wrote it last; a successful delete of \<open>A\<close> afterwards removes the record of
  \<open>A\<close>, keeps the record of \<open>B\<close> and leaves an index without \<open>A\<close>.  Whether the index
  holds both IDs, and whether the delete leaves \<open>B\<close> in it, depends on the reading of the
  index record (see C8) and is left open here.
\<close>

theorem concurrent_saves_keep_records:
  assumes "c_id a \<noteq> c_id b"
    and "interleave E sched (SaveStart a) (SaveStart b) w = (SaveDone True, SaveDone True, w')"
  shows "kv_campaigns w' (c_id a) = Some a \<and> kv_campaigns w' (c_id b) = Some b
    \<and> (c_id a \<in> set (index_ids w') \<or> c_id b \<in> set (index_ids w'))
    \<and> (\<forall>m w''. route_delete E (c_id a) w' = (JsonOk m, w'') \<longrightarrow>
          c_id a \<notin> set (index_ids w'') \<and> kv_campaigns w'' (c_id a) = None
          \<and> kv_campaigns w'' (c_id b) = Some b)"
proof -
  have "task_inv a (c_id b) (SaveStart a) w" "task_inv b (c_id a) (SaveStart b) w" by simp_all
  from interleave_inv [OF assms(1) this assms(2)]
  have rec: "kv_campaigns w' (c_id a) = Some a" "kv_campaigns w' (c_id b) = Some b"
    and idx: "c_id a \<in> set (index_ids w') \<or> c_id b \<in> set (index_ids w')"
    by auto
  have "c_id a \<notin> set (index_ids w'') \<and> kv_campaigns w'' (c_id a) = None
          \<and> kv_campaigns w'' (c_id b) = Some b"
    if "route_delete E (c_id a) w' = (JsonOk m, w'')" for m w''
    using route_delete_unindexes [OF that] route_delete_ok(2) [OF that] rec assms(1) by auto
  with rec idx show ?thesis by blast
qed

theorem concurrent_saves_keep_records_witness:
  "c_id campaign_A \<noteq> c_id campaign_B
   \<and> fst (interleave env_member [False, True, False, True, False, True]
            (SaveStart campaign_A) (SaveStart campaign_B) world0) = SaveDone True
   \<and> fst (snd (interleave env_member [False, True, False, True, False, True]
            (SaveStart campaign_A) (SaveStart campaign_B) world0)) = SaveDone True
   \<and> kv_campaigns (snd (snd (interleave env_member [False, True, False, True, False, True]
            (SaveStart campaign_A) (SaveStart campaign_B) world0))) ''A'' = Some campaign_A
   \<and> kv_campaigns (snd (snd (interleave env_member [False, True, False, True, False, True]
            (SaveStart campaign_A) (SaveStart campaign_B) world0))) ''B'' = Some campaign_B
   \<and> ''B'' \<in> set (index_ids (snd (snd (interleave env_member [False, True, False, True, False, True]
            (SaveStart campaign_A) (SaveStart campaign_B) world0))))
   \<and> fst (route_delete env_member ''A''
        (snd (snd (interleave env_member [False, True, False, True, False, True]
            (SaveStart campaign_A) (SaveStart campaign_B) world0)))) = JsonOk ''Campaign A deleted''
   \<and> ''A'' \<notin> set (index_ids (snd (route_delete env_member ''A''
        (snd (snd (interleave env_member [False, True, False, True, False, True]
            (SaveStart campaign_A) (SaveStart campaign_B) world0))))))
   \<and> kv_campaigns (snd (route_delete env_member ''A''
        (snd (snd (interleave env_member [False, True, False, True, False, True]
            (SaveStart campaign_A) (SaveStart campaign_B) world0))))) ''B'' = Some campaign_B"
proof -
  let ?r = "interleave env_member [False, True, False, True, False, True]
            (SaveStart campaign_A) (SaveStart campaign_B) world0"
  let ?w = "snd (snd ?r)"
  have ne: "c_id campaign_A \<noteq> c_id campaign_B"
    and ida: "c_id campaign_A = ''A''" and idb: "c_id campaign_B = ''B''"
    by (simp_all add: campaign_A_def campaign_B_def)
  have fin: "fst ?r = SaveDone True" "fst (snd ?r) = SaveDone True" by code_simp+
  then have run: "?r = (SaveDone True, SaveDone True, ?w)" by (metis prod.collapse)
  have b: "''B'' \<in> set (index_ids ?w)" by code_simp
  have d: "fst (route_delete env_member ''A'' ?w) = JsonOk ''Campaign A deleted''" by code_simp
  then have d': "route_delete env_member (c_id campaign_A) ?w =
      (JsonOk ''Campaign A deleted'', snd (route_delete env_member ''A'' ?w))"
    unfolding ida by (metis prod.collapse)
  from concurrent_saves_keep_records [OF ne run] d'
  have "kv_campaigns ?w (c_id campaign_A) = Some campaign_A"
    and "kv_campaigns ?w (c_id campaign_B) = Some campaign_B"
    and "c_id campaign_A \<notin> set (index_ids (snd (route_delete env_member ''A'' ?w)))"
    and "kv_campaigns (snd (route_delete env_member ''A'' ?w)) (c_id campaign_B) = Some campaign_B"
    by blast+
  with ne fin b d show ?thesis unfolding ida idb by simp
qed

text \<open>
  The interleaving that loses an update, on the shape of \<open>data\<close> where a save does read
  the index: both saves write their record, both read the (empty) index, then each writes
  the list it has read with its own ID added.  Both return \<open>true\<close> and the index is
  \<open>[B]\<close>, where the same saves one after the other give \<open>[A, B]\<close>.
\<close>

theorem concurrent_saves_lose_an_update:
  "fst (interleave env_member [False, True, False, True, False, True]
          (SaveStart campaign_A) (SaveStart campaign_B) world0) = SaveDone True
   \<and> fst (snd (interleave env_member [False, True, False, True, False, True]
          (SaveStart campaign_A) (SaveStart campaign_B) world0)) = SaveDone True
   \<and> index_ids (snd (snd (interleave env_member [False, True, False, True, False, True]
          (SaveStart campaign_A) (SaveStart campaign_B) world0))) = [''B'']
   \<and> index_ids (snd (snd (interleave env_member [False, False, False, True, True, True]
          (SaveStart campaign_A) (SaveStart campaign_B) world0))) = [''A'', ''B'']
   \<and> index_ids (snd (snd (interleave env_runtime [False, True, False, True, False, True]
          (SaveStart campaign_A) (SaveStart campaign_B) world0))) = [''B'']"
  by code_simp

section \<open>Claims about the dates and the handler\<close>

lemma readable_in_range:
  assumes "iso_first \<le> b" "b \<le> iso_last"
  shows "\<bar>b\<bar> \<le> max_time"
  using assms by (simp add: iso_first_def iso_last_def max_time_def)

lemma newDate_readable:
  "iso_first \<le> b \<Longrightarrow> b \<le> iso_last \<Longrightarrow> newDate E (Iso b) = Some b"
  by (simp add: newDate_def)

lemma newDate_five_digit_year: "iso_last < b \<Longrightarrow> newDate E (Iso b) = None"
  by (simp add: newDate_def)

lemma incrementDateByDays_unreadable:
  "iso_last < b \<Longrightarrow> incrementDateByDays E (Iso b) m = Iso b"
  by (simp add: incrementDateByDays_def newDate_five_digit_year)

lemma incrementDateByDays_Iso:
  assumes "iso_first \<le> b" "b \<le> iso_last" "\<bar>b + int m * day_ms\<bar> \<le> max_time"
  shows "incrementDateByDays E (Iso b) m = Iso (b + int m * day_ms)"
  using assms
  by (simp add: incrementDateByDays_def newDate_readable addDays_def timeClip_def)

lemma date_loop_closed:
  "date_loop E d inc n = (map (\<lambda>i. incrementDateByDays E d (inc + i)) [0..<n], inc + n)"
proof (induction n arbitrary: inc)
  case 0
  show ?case by simp
next
  case (Suc n)
  have "[0..<Suc n] = 0 # map Suc [0..<n]"
    by (simp add: upt_conv_Cons map_Suc_upt del: upt_Suc)
  then have "map (\<lambda>i. incrementDateByDays E d (inc + i)) [0..<Suc n] =
        incrementDateByDays E d inc # map (\<lambda>i. incrementDateByDays E d (Suc inc + i)) [0..<n]"
    by (simp only: list.map map_map o_def) simp
  then show ?case using Suc.IH [of "Suc inc"] by (simp del: upt_Suc)
qed

lemma in_range_between:
  assumes "\<bar>b\<bar> \<le> max_time" "\<bar>b + int n * day_ms\<bar> \<le> max_time" "m \<le> n"
  shows "\<bar>b + int m * day_ms\<bar> \<le> max_time"
proof -
  have "0 \<le> int m * day_ms" by (simp add: day_ms_def)
  moreover have "int m * day_ms \<le> int n * day_ms"
    using assms(3) by (simp add: day_ms_def)
  ultimately show ?thesis using assms(1,2) by linarith
qed

lemma date_loop_Iso:
  assumes "iso_first \<le> b" "b \<le> iso_last" "\<bar>b + int (inc + n) * day_ms\<bar> \<le> max_time"
  shows "date_loop E (Iso b) inc n = (map (\<lambda>i. Iso (b + int (inc + i) * day_ms)) [0..<n], inc + n)"
proof -
  have r: "\<bar>b + int (inc + i) * day_ms\<bar> \<le> max_time" if "i < n" for i
    by (rule in_range_between [OF readable_in_range [OF assms(1,2)] assms(3)])
       (use that in simp)
  have "incrementDateByDays E (Iso b) (inc + i) = Iso (b + int (inc + i) * day_ms)"
    if "i < n" for i
    by (rule incrementDateByDays_Iso [OF assms(1,2)]) (rule r [OF that])
  then have "map (\<lambda>i. incrementDateByDays E (Iso b) (inc + i)) [0..<n] =
             map (\<lambda>i. Iso (b + int (inc + i) * day_ms)) [0..<n]"
    by (intro map_cong refl) simp
  then show ?thesis unfolding date_loop_closed by (simp only:)
qed

lemma content_positions_distinct: "distinct (content_positions i ps)"
  unfolding content_positions_def by (rule distinct_map_filter) simp

lemma tweets_positions_distinct: "distinct (tweets_positions i ps)"
  unfolding tweets_positions_def by (rule distinct_map_filter) simp

lemma selected_date_generated:
  assumes "i < n"
  shows "selected_date (map f [0..<n]) i = f i"
proof -
  have "min i (n - 1) = i" using assms by arith
  then show ?thesis using assms by (simp add: selected_date_def)
qed


lemma day_offset_inj: "inj (\<lambda>i. Iso (b + int i * day_ms))"
  by (rule injI) (simp add: day_ms_def)


text \<open>
  C2 (one day counter for all channels).  For a campaign with linkedin posts and twitter
  threads and a base date \<open>b\<close> that the \<open>Date\<close> constructor reads back from its
  rendering, that is a date of the years 1 to 9999 (and all dates within the range of
  \<open>Date\<close>), the merged outcomes are those of the linkedin posts in position order
  followed by those of the twitter threads in position order; the post at position \<open>i\<close>
  has the date \<open>b + i\<close> days, the thread at position \<open>j\<close> the date
  \<open>b + (nL + j)\<close> days, where \<open>nL\<close> is the number of linkedin posts; no date occurs
  twice.
\<close>

theorem shared_day_counter:
  assumes "c_content c = Some content"
    and "linkedInPosts content \<noteq> []" and "twitterThreads content \<noteq> []"
    and "iso_first \<le> b" and "b \<le> iso_last"
    and "\<bar>b + int (length (linkedInPosts content) + length (twitterThreads content)) * day_ms\<bar>
           \<le> max_time"
  shows "\<exists>osL osT.
      scheduledPosts (fst (scheduleContent E c (Iso b) info k w)) = scheduledPosts info @ osL @ osT
    \<and> map o_postId osL =
        map (\<lambda>i. ''linkedin-post-'' @ string_of_nat i) (content_positions 0 (linkedInPosts content))
    \<and> map o_postId osT =
        map (\<lambda>j. ''twitter-thread-'' @ string_of_nat j) (tweets_positions 0 (twitterThreads content))
    \<and> map o_scheduledDate osL =
        map (\<lambda>i. Iso (b + int i * day_ms)) (content_positions 0 (linkedInPosts content))
    \<and> map o_scheduledDate osT =
        map (\<lambda>j. Iso (b + int (length (linkedInPosts content) + j) * day_ms))
          (tweets_positions 0 (twitterThreads content))
    \<and> distinct (map o_scheduledDate (osL @ osT))"
proof -
  let ?P = "linkedInPosts content" and ?T = "twitterThreads content"
  let ?nL = "length ?P" and ?nT = "length ?T"
  let ?f = "\<lambda>i. Iso (b + int i * day_ms)"
  let ?dsL = "map ?f [0..<?nL]"
  let ?dsT = "map (\<lambda>j. ?f (?nL + j)) [0..<?nT]"
  have rL: "\<bar>b + int (0 + ?nL) * day_ms\<bar> \<le> max_time"
    using in_range_between [OF readable_in_range [OF assms(4,5)] assms(6), of ?nL] by simp
  have dl: "date_loop E (Iso b) 0 ?nL = (?dsL, ?nL)"
    using date_loop_Iso [OF assms(4,5) rL, of E] by simp
  have dt: "date_loop E (Iso b) ?nL ?nT = (?dsT, ?nL + ?nT)"
    using date_loop_Iso [OF assms(4,5,6), of E] by simp
  have neL: "?dsL \<noteq> []" and neT: "?dsT \<noteq> []" using assms(2,3) by simp_all
  have trL: "\<forall>d \<in> set ?dsL. \<not> falsy d" and trT: "\<forall>d \<in> set ?dsT. \<not> falsy d"
    by (auto simp: falsy_def)
  obtain osL ps' w1 where L: "scheduleLinkedInPosts E ?P ?dsL k w = (osL, ps', w1)"
    by (cases "scheduleLinkedInPosts E ?P ?dsL k w") auto
  obtain osT ts' w2 where T: "scheduleTwitterThreads E ?T ?dsT k w1 = (osT, ts', w2)"
    by (cases "scheduleTwitterThreads E ?T ?dsT k w1") auto
  have sc: "scheduledPosts (fst (scheduleContent E c (Iso b) info k w)) =
              scheduledPosts info @ osL @ osT"
    using assms(1,2,3) dl dt L T by (simp add: scheduleContent_def)
  have osL: "osL = fst (linkedin_loop E k ?dsL 0 ?P w)"
    using L neL by (simp add: scheduleLinkedInPosts_def del: upt_Suc)
  have osT: "osT = fst (twitter_loop E k ?dsT 0 ?T w1)"
    using T neT by (simp add: scheduleTwitterThreads_def del: upt_Suc)
  have idL: "map o_postId osL =
      map (\<lambda>i. ''linkedin-post-'' @ string_of_nat i) (content_positions 0 ?P)"
    unfolding osL by (rule linkedin_loop_postIds)
  have idT: "map o_postId osT =
      map (\<lambda>j. ''twitter-thread-'' @ string_of_nat j) (tweets_positions 0 ?T)"
    unfolding osT by (rule twitter_loop_postIds)
  have "map o_scheduledDate osL = map (selected_date ?dsL) (content_positions 0 ?P)"
    unfolding osL by (rule linkedin_loop_dates [OF trL neL])
  also have "\<dots> = map ?f (content_positions 0 ?P)"
  proof (rule map_cong [OF refl])
    fix i assume "i \<in> set (content_positions 0 ?P)"
    then have "i < ?nL" by (auto dest: content_positions_mem)
    then show "selected_date ?dsL i = ?f i" by (rule selected_date_generated)
  qed
  finally have dL: "map o_scheduledDate osL = map ?f (content_positions 0 ?P)" .
  have "map o_scheduledDate osT = map (selected_date ?dsT) (tweets_positions 0 ?T)"
    unfolding osT by (rule twitter_loop_dates [OF trT neT])
  also have "\<dots> = map (\<lambda>j. ?f (?nL + j)) (tweets_positions 0 ?T)"
  proof (rule map_cong [OF refl])
    fix j assume "j \<in> set (tweets_positions 0 ?T)"
    then have "j < ?nT" by (auto dest: tweets_positions_mem)
    then show "selected_date ?dsT j = ?f (?nL + j)" by (rule selected_date_generated)
  qed
  finally have dT: "map o_scheduledDate osT = map (\<lambda>j. ?f (?nL + j)) (tweets_positions 0 ?T)" .
  have "map o_scheduledDate (osL @ osT) =
          map ?f (content_positions 0 ?P @ map (\<lambda>j. ?nL + j) (tweets_positions 0 ?T))"
    by (simp add: dL dT o_def)
  moreover have "distinct (content_positions 0 ?P @ map (\<lambda>j. ?nL + j) (tweets_positions 0 ?T))"
    by (auto simp: content_positions_distinct tweets_positions_distinct distinct_map
          dest: content_positions_mem)
  ultimately have "distinct (map o_scheduledDate (osL @ osT))"
    using day_offset_inj [of b] by (simp only: distinct_map) (auto intro: inj_on_subset)
  with sc idL idT dL dT show ?thesis by blast
qed

theorem shared_day_counter_witness:
  "c_content two_and_one =
     Some \<lparr>linkedInPosts = [Some (mk_post ''first''), Some (mk_post ''second'')],
           twitterThreads = [Some (mk_thread [''one'', ''two''])]\<rparr>
   \<and> iso_first \<le> 1793000000000 \<and> 1793000000000 \<le> iso_last
   \<and> \<bar>1793000000000 + int (2 + 1) * day_ms\<bar> \<le> max_time
   \<and> map o_postId
        (scheduledPosts (fst (scheduleContent env0 two_and_one (Iso 1793000000000) no_info ''key'' world0)))
       = [''linkedin-post-0'', ''linkedin-post-1'', ''twitter-thread-0'']
   \<and> map o_scheduledDate
        (scheduledPosts (fst (scheduleContent env0 two_and_one (Iso 1793000000000) no_info ''key'' world0)))
       = [Iso 1793000000000, Iso 1793086400000, Iso 1793172800000]"
proof -
  let ?content = "\<lparr>linkedInPosts = [Some (mk_post ''first''), Some (mk_post ''second'')],
           twitterThreads = [Some (mk_thread [''one'', ''two''])]\<rparr>"
  have c: "c_content two_and_one = Some ?content"
    by (simp add: two_and_one_def campaign_c1_def)
  have ne: "linkedInPosts ?content \<noteq> []" "twitterThreads ?content \<noteq> []" by simp_all
  have r0: "iso_first \<le> 1793000000000" "1793000000000 \<le> iso_last"
    by (simp_all add: iso_first_def iso_last_def)
  have r1: "\<bar>1793000000000 + int (length (linkedInPosts ?content) + length (twitterThreads ?content)) * day_ms\<bar>
              \<le> max_time"
    by (simp add: max_time_def day_ms_def)
  have pos: "content_positions 0 (linkedInPosts ?content) = [0, 1]"
    by (simp add: mk_post_def post_has_content_def)
  have tpos: "tweets_positions 0 (twitterThreads ?content) = [0]"
    by (simp add: mk_thread_def thread_has_tweets_def)
  have ids: "map (\<lambda>i. ''linkedin-post-'' @ string_of_nat i) [0, 1] =
      [''linkedin-post-0'', ''linkedin-post-1'']"
    "map (\<lambda>j. ''twitter-thread-'' @ string_of_nat j) [0] = [''twitter-thread-0'']"
    by code_simp+
  have ds: "map (\<lambda>i. Iso (1793000000000 + int i * day_ms)) [0, 1] =
      [Iso 1793000000000, Iso 1793086400000]"
    "map (\<lambda>j. Iso (1793000000000 + int (length (linkedInPosts ?content) + j) * day_ms)) [0] =
      [Iso 1793172800000]"
    by (simp_all add: day_ms_def)
  from shared_day_counter [OF c ne r0 r1, of env0 no_info "''key''" world0]
  obtain osL osT where
    "scheduledPosts (fst (scheduleContent env0 two_and_one (Iso 1793000000000) no_info ''key'' world0))
       = scheduledPosts no_info @ osL @ osT"
    and "map o_postId osL = map (\<lambda>i. ''linkedin-post-'' @ string_of_nat i) [0, 1]"
    and "map o_postId osT = map (\<lambda>j. ''twitter-thread-'' @ string_of_nat j) [0]"
    and "map o_scheduledDate osL = map (\<lambda>i. Iso (1793000000000 + int i * day_ms)) [0, 1]"
    and "map o_scheduledDate osT =
      map (\<lambda>j. Iso (1793000000000 + int (length (linkedInPosts ?content) + j) * day_ms)) [0]"
    unfolding pos tpos by blast
  then show ?thesis using c r0 r1
    by (simp only: ids ds) (simp add: no_info_def)
qed


text \<open>
  C2, the base dates left out.  The pattern \<open>yyyy\<close> renders the years from 10000 on
  with five digits, and the \<open>Date\<close> constructor does not read such a string back;
  \<open>incrementDateByDays\<close> then takes its \<open>catch\<close> branch and returns the base date
  itself, whatever the number of days.  For the base date 10000-01-01, which the handler
  gets from a hint with the expanded year \<open>+010000\<close>, two linkedin posts and one twitter
  thread are all dispatched and recorded with that one date.
\<close>

theorem unreadable_base_repeats_date:
  "map o_scheduledDate
     (scheduledPosts (fst (scheduleContent env0 two_and_one (Iso 253402300800000) no_info ''key'' world0)))
     = [Iso 253402300800000, Iso 253402300800000, Iso 253402300800000]
   \<and> map o_postId
       (scheduledPosts (fst (scheduleContent env0 two_and_one (Iso 253402300800000) no_info ''key'' world0)))
     = [''linkedin-post-0'', ''linkedin-post-1'', ''twitter-thread-0'']
   \<and> fst (handler env_far_year request_far_year (world_with two_and_one)) =
       SchedulerSuccess ''c1'' 3 ''Successfully scheduled 3 posts for campaign''
   \<and> map_option (map o_scheduledDate)
       (stored_outcomes (snd (handler env_far_year request_far_year (world_with two_and_one))) ''c1'')
     = Some [Iso 253402300800000, Iso 253402300800000, Iso 253402300800000]
   \<and> map_option (map o_status)
       (stored_outcomes (snd (handler env_far_year request_far_year (world_with two_and_one))) ''c1'')
     = Some [scheduled, scheduled, scheduled]
   \<and> map r_schedule_date
       (sent (snd (handler env_far_year request_far_year (world_with two_and_one))))
     = [Iso 253402300800000, Iso 253402300800000, Iso 253402300800000]
   \<and> iso_last < 253402300800000 \<and> \<bar>253402300800000 + 3 * day_ms\<bar> \<le> max_time"
  by code_simp

lemma getValidDate_default:
  "fst (getValidDate E None b w) = Iso (clock E (clock_reads w) + 7 * day_ms)"
  "fst (getValidDate E (Some []) b w) = Iso (clock E (clock_reads w) + 7 * day_ms)"
  by (simp_all add: getValidDate_def now_def)

lemma getValidDate_resolved:
  assumes "s \<noteq> []"
  shows "fst (getValidDate E (Some s) True w) =
     (case resolve E s (clock E (Suc (clock_reads w))) of
        None \<Rightarrow> Iso (clock E (clock_reads w) + 7 * day_ms)
      | Some t \<Rightarrow> if t < clock E (Suc (Suc (clock_reads w)))
                  then Iso (clock E (clock_reads w) + 7 * day_ms) else Iso t)"
  using assms
  by (simp add: getValidDate_def now_def resolve_def Let_def split: option.splits)

lemma getValidDate_library_resolved:
  assumes "s \<noteq> []"
  shows "fst (getValidDate_library E (Some s) True w) =
     (case (case parseHumanRelative E s (clock E (Suc (clock_reads w))) of
              Returned d \<Rightarrow> d | Threw \<Rightarrow> parseDate E s) of
        None \<Rightarrow> Iso (clock E (clock_reads w) + 7 * day_ms)
      | Some t \<Rightarrow> if t < clock E (Suc (Suc (clock_reads w)))
                  then Iso (clock E (clock_reads w) + 7 * day_ms) else Iso t)"
  using assms
  by (simp add: getValidDate_library_def now_def Let_def split: option.splits attempt.splits)

text \<open>
  C6 (past-date rejection).  \<open>getValidDate\<close> gives the default, seven days after the first
  reading of the clock, for an absent or empty hint, for a hint that resolves to the
  invalid date, and for one that resolves to an instant strictly before the reading of the
  clock at the check (\<open>getValidDate_default\<close>, \<open>getValidDate_resolved\<close>).  The check is
  \<open>isPast\<close>, which is strict: a hint that resolves to the very instant of the check is
  not in the future and is accepted all the same.  With the hint \<open>today\<close> and the readings
  of the clock in one millisecond, the result is the present instant and not the default;
  in the variant with the library, the same happens for a hint that the \<open>Date\<close>
  constructor reads as the present instant.
\<close>

theorem today_is_accepted:
  "fst (getValidDate env_frozen (Some ''today'') True world0) = Iso 1793000000000
   \<and> fst (getValidDate env_frozen None True world0) = Iso 1793604800000
   \<and> fst (getValidDate_library env_frozen (Some ''2026-10-26T07:33:20.000Z'') True world0) =
       Iso 1793000000000
   \<and> fst (getValidDate_library env_frozen None True world0) = Iso 1793604800000"
  by code_simp

text \<open>
  C4 (scheduled count).  A run whose items fail at dispatch still returns a success
  result, but the count it reports is the number of all outcome records, the failed ones
  included: for one post whose dispatch is rejected the handler reports one scheduled post
  (\<open>Successfully scheduled 1 posts for campaign\<close>) while the only outcome stored is
  \<open>failed\<close>.
\<close>

theorem failed_post_is_counted:
  "fst (handler env0 request_c1 (world_with (campaign_c1 [Some (mk_post ''bad'')] []))) =
     SchedulerSuccess ''c1'' 1 ''Successfully scheduled 1 posts for campaign''
   \<and> map_option (map o_status)
       (stored_outcomes
          (snd (handler env0 request_c1 (world_with (campaign_c1 [Some (mk_post ''bad'')] []))))
          ''c1'') = Some [failed]"
  by code_simp

lemma parse_tomorrow: "parseRelativeDate E ''tomorrow'' t = Some (addDays t 1)"
  by (simp add: parseRelativeDate_def toLowerCase_def trim_def lower_char_def is_space_def)

lemma isValidId_c1: "isValidId ''c1''" "trim ''c1'' \<noteq> []"
  by (simp_all add: isValidId_def trim_def is_space_def)

lemma string_of_nat_small:
  "string_of_nat 0 = ''0''" "string_of_nat 1 = ''1''" "string_of_nat (Suc 0) = ''1''"
  by code_simp+

lemma getValidDate_tomorrow:
  assumes "\<bar>clock E (clock_reads w + 1) + day_ms\<bar> \<le> max_time"
    and "clock E (clock_reads w + 2) \<le> clock E (clock_reads w + 1) + day_ms"
  shows "getValidDate E (Some ''tomorrow'') True w =
           (Iso (clock E (clock_reads w + 1) + day_ms), w\<lparr>clock_reads := clock_reads w + 3\<rparr>)"
  using assms
  by (simp add: getValidDate_def now_def parse_tomorrow addDays_def timeClip_def)

lemma saveCampaign_nofault:
  assumes "\<forall>n. \<not> kv_fault E n" "isValidId (c_id c)"
  shows "fst (saveCampaign E c w)"
    and "kv_campaigns (snd (saveCampaign E c w)) = (kv_campaigns w)(c_id c \<mapsto> c)"
    and "clock_reads (snd (saveCampaign E c w)) = clock_reads w"
    and "sent (snd (saveCampaign E c w)) = sent w"
  using assms
  by (auto simp: saveCampaign_def updateCampaignIndex_def getCampaignIndex_def
        kv_set_campaign_def kv_get_index_def kv_set_index_def kv_tick_def
        split: option.splits)

lemma getCampaign_nofault:
  assumes "\<forall>n. \<not> kv_fault E n" "isValidId i" "kv_client E = DataJsonMethod"
  shows "fst (getCampaign E i w) = kv_campaigns w i"
    and "kv_campaigns (snd (getCampaign E i w)) = kv_campaigns w"
    and "clock_reads (snd (getCampaign E i w)) = clock_reads w"
    and "sent (snd (getCampaign E i w)) = sent w"
  using assms
  by (simp_all add: getCampaign_def kv_get_campaign_def kv_tick_def data_json_call_def
        split: option.splits)

lemma updateCampaignStatus_nofault:
  assumes "\<forall>n. \<not> kv_fault E n" "isValidId i" "kv_campaigns w i = Some c" "c_id c = i"
    and "kv_client E = DataJsonMethod"
  shows "kv_campaigns (snd (updateCampaignStatus E i st w)) =
           (kv_campaigns w)(i \<mapsto> c\<lparr>c_status := st, c_updatedAt := Iso (clock E (clock_reads w))\<rparr>)"
    and "clock_reads (snd (updateCampaignStatus E i st w)) = Suc (clock_reads w)"
    and "sent (snd (updateCampaignStatus E i st w)) = sent w"
proof -
  obtain w1 where g: "getCampaign E i w = (Some c, w1)"
    and w1: "kv_campaigns w1 = kv_campaigns w" "clock_reads w1 = clock_reads w" "sent w1 = sent w"
    using getCampaign_nofault [OF assms(1,2,5), of w] assms(3)
    by (cases "getCampaign E i w") auto
  let ?c = "c\<lparr>c_status := st, c_updatedAt := Iso (clock E (clock_reads w))\<rparr>"
  let ?w2 = "w1\<lparr>clock_reads := Suc (clock_reads w1)\<rparr>"
  have u: "snd (updateCampaignStatus E i st w) = snd (saveCampaign E ?c ?w2)"
    using g w1 by (simp add: updateCampaignStatus_def now_def case_prod_beta Let_def)
  have v: "isValidId (c_id ?c)" using assms(2,4) by simp
  show "kv_campaigns (snd (updateCampaignStatus E i st w)) = (kv_campaigns w)(i \<mapsto> ?c)"
    unfolding u using saveCampaign_nofault(2) [OF assms(1) v, of ?w2] w1 assms(4) by simp
  show "clock_reads (snd (updateCampaignStatus E i st w)) = Suc (clock_reads w)"
    unfolding u using saveCampaign_nofault(3) [OF assms(1) v, of ?w2] w1 by simp
  show "sent (snd (updateCampaignStatus E i st w)) = sent w"
    unfolding u using saveCampaign_nofault(4) [OF assms(1) v, of ?w2] w1 by simp
qed


lemma scheduleContent_single:
  assumes "c_content c = Some \<lparr>linkedInPosts = [Some p], twitterThreads = []\<rparr>"
    and "p_content p = Some ''A''"
    and "\<forall>req. r_content req = ''A'' \<longrightarrow> fetch E (length (sent w)) req = DraftCreated ''d1''"
    and "iso_first \<le> t" and "\<bar>t\<bar> \<le> max_time"
  shows "scheduledPosts (fst (scheduleContent E c (Iso t) info k w)) =
           scheduledPosts info @
             [\<lparr>o_postId = ''linkedin-post-0'', o_typefullyId = ''d1'',
               o_scheduledDate = Iso t, o_status = scheduled\<rparr>]"
    and "c_id (fst (snd (scheduleContent E c (Iso t) info k w))) = c_id c"
    and "kv_campaigns (snd (snd (scheduleContent E c (Iso t) info k w))) = kv_campaigns w"
    and "clock_reads (snd (snd (scheduleContent E c (Iso t) info k w))) = clock_reads w"
  using assms
  by (simp_all add: scheduleContent_def scheduleLinkedInPosts_def schedule_post_def
        createTypefullyDraft_def date_or_tomorrow_def falsy_def incrementDateByDays_def
        newDate_def addDays_def timeClip_def string_of_nat_small Let_def
        split: option.splits)

text \<open>
  The scenario of one linkedin post \<open>A\<close>, on a client whose \<open>data\<close> has the method
  \<open>json()\<close>: the store holds campaign \<open>c1\<close> with one linkedin post of content
  \<open>A\<close> and no twitter thread; the API key is set, the key-value service does not fail,
  the publishing service answers the dispatch of \<open>A\<close> with draft \<open>d1\<close>, and the clock
  does not advance by more than a day between two readings.  Then the handler, called with
  the hint \<open>tomorrow\<close>, returns a success result that counts one post, and the stored
  campaign ends with exactly one outcome, \<open>linkedin-post-0\<close> with draft \<open>d1\<close>, status
  \<open>scheduled\<close> and the date one day after the reading of the clock at which the hint was
  parsed, and with status \<open>active\<close>.
\<close>

lemma handler_schedules_single_post:
  assumes "TYPEFULLY_API_KEY E = Some k" and "k \<noteq> []"
    and "\<forall>n. \<not> kv_fault E n"
    and "kv_campaigns w ''c1'' = Some c" and "c_id c = ''c1''"
    and "c_content c = Some \<lparr>linkedInPosts = [Some p], twitterThreads = []\<rparr>"
    and "p_content p = Some ''A''"
    and "\<forall>req. r_content req = ''A'' \<longrightarrow> fetch E (length (sent w)) req = DraftCreated ''d1''"
    and "\<bar>clock E (clock_reads w + 2) + day_ms\<bar> \<le> max_time"
    and "clock E (clock_reads w + 3) \<le> clock E (clock_reads w + 2) + day_ms"
    and "kv_client E = DataJsonMethod"
    and "iso_first \<le> clock E (clock_reads w + 2) + day_ms"
  shows "fst (handler E \<lparr>sr_campaignId = ''c1'', sr_content = x,
                         sr_publishDate = Some ''tomorrow''\<rparr> w) =
           SchedulerSuccess ''c1'' 1 ''Successfully scheduled 1 posts for campaign''
    \<and> stored_outcomes
         (snd (handler E \<lparr>sr_campaignId = ''c1'', sr_content = x,
                          sr_publishDate = Some ''tomorrow''\<rparr> w)) ''c1'' =
        Some [\<lparr>o_postId = ''linkedin-post-0'', o_typefullyId = ''d1'',
               o_scheduledDate = Iso (clock E (clock_reads w + 2) + day_ms),
               o_status = scheduled\<rparr>]
    \<and> stored_status
         (snd (handler E \<lparr>sr_campaignId = ''c1'', sr_content = x,
                          sr_publishDate = Some ''tomorrow''\<rparr> w)) ''c1'' = Some active"
proof -
  let ?t = "clock E (clock_reads w + 2) + day_ms"
  let ?o = "\<lparr>o_postId = ''linkedin-post-0'', o_typefullyId = ''d1'',
               o_scheduledDate = Iso ?t, o_status = scheduled\<rparr>"
  note nf = assms(3) and cl = assms(11)
  \<comment> \<open>the campaign is read\<close>
  obtain w1 where g: "getCampaign E ''c1'' w = (Some c, w1)"
    and w1: "kv_campaigns w1 = kv_campaigns w" "clock_reads w1 = clock_reads w" "sent w1 = sent w"
    using getCampaign_nofault [OF nf isValidId_c1(1) cl, of w] assms(4)
    by (cases "getCampaign E ''c1'' w") auto
  \<comment> \<open>status \<open>scheduling\<close>\<close>
  obtain u w2 where s1: "updateCampaignStatus E ''c1'' scheduling w1 = (u, w2)"
    by (cases "updateCampaignStatus E ''c1'' scheduling w1") auto
  have c1: "kv_campaigns w1 ''c1'' = Some c" using w1 assms(4) by simp
  from updateCampaignStatus_nofault [OF nf isValidId_c1(1) c1 assms(5) cl, of scheduling] s1
  have w2: "clock_reads w2 = Suc (clock_reads w)" "sent w2 = sent w"
    using w1 by simp_all
  \<comment> \<open>the base date\<close>
  have r: "\<bar>clock E (clock_reads w2 + 1) + day_ms\<bar> \<le> max_time"
    "clock E (clock_reads w2 + 2) \<le> clock E (clock_reads w2 + 1) + day_ms"
    using assms(9,10) w2 by (simp_all add: numeral_3_eq_3)
  have gd: "getValidDate E (Some ''tomorrow'') True w2 =
      (Iso ?t, w2\<lparr>clock_reads := clock_reads w2 + 3\<rparr>)"
    using getValidDate_tomorrow [OF r] w2 by simp
  let ?w3 = "w2\<lparr>clock_reads := clock_reads w2 + 3\<rparr>"
  \<comment> \<open>the content is scheduled\<close>
  obtain info c' w4 where sc: "scheduleContent E c (Iso ?t) no_info k ?w3 = (info, c', w4)"
    by (cases "scheduleContent E c (Iso ?t) no_info k ?w3") auto
  have f3: "\<forall>req. r_content req = ''A'' \<longrightarrow>
                  fetch E (length (sent ?w3)) req = DraftCreated ''d1''"
    using assms(8) w2 by simp
  have tr: "\<bar>?t\<bar> \<le> max_time" by (rule assms(9))
  from scheduleContent_single [OF assms(6,7) f3 assms(12) tr, of no_info k] sc
  have info: "scheduledPosts info = [?o]" and c': "c_id c' = ''c1''"
    using assms(5) by (simp_all add: no_info_def)
  \<comment> \<open>the campaign is saved, then made active\<close>
  obtain t5 w5 where n5: "now E w4 = (t5, w5)" by (cases "now E w4") auto
  let ?c'' = "c'\<lparr>c_schedulingInfo := Some info, c_updatedAt := Iso t5\<rparr>"
  have v: "isValidId (c_id ?c'')" using c' isValidId_c1(1) by simp
  obtain b w6 where sv: "saveCampaign E ?c'' w5 = (b, w6)"
    by (cases "saveCampaign E ?c'' w5") auto
  from saveCampaign_nofault [OF nf v, of w5] sv
  have b: "b" and w6: "kv_campaigns w6 ''c1'' = Some ?c''"
    using c' by simp_all
  obtain u' w7 where s2: "updateCampaignStatus E ''c1'' active w6 = (u', w7)"
    by (cases "updateCampaignStatus E ''c1'' active w6") auto
  have id'': "c_id ?c'' = ''c1''" using c' by simp
  from updateCampaignStatus_nofault(1) [OF nf isValidId_c1(1) w6 id'' cl, of active] s2
  have w7: "kv_campaigns w7 ''c1'' =
      Some (?c''\<lparr>c_status := active, c_updatedAt := Iso (clock E (clock_reads w6))\<rparr>)"
    by simp
  have h: "handler E \<lparr>sr_campaignId = ''c1'', sr_content = x,
                         sr_publishDate = Some ''tomorrow''\<rparr> w =
      (SchedulerSuccess ''c1'' (length (scheduledPosts info))
         (''Successfully scheduled '' @ string_of_nat (length (scheduledPosts info))
            @ '' posts for campaign''), w7)"
    using assms(1,2,6) g s1 gd sc n5 sv b s2 isValidId_c1(2)
    by (simp add: handler_def no_info_def)
  show ?thesis
    unfolding h using info w7
    by (simp add: stored_outcomes_def stored_status_def string_of_nat_small)
qed


text \<open>
  C1 (end to end).  The store holds campaign \<open>c1\<close> with one linkedin post of content
  \<open>A\<close> and no twitter thread, the API key is set, nothing fails, and the handler is
  called with the hint \<open>tomorrow\<close>.  \<open>getCampaign\<close> reads the record with
  \<open>result.data.json()\<close>.  On the client of the campaign routes, whose \<open>result.data\<close>
  is the stored record itself, this call throws, \<open>getCampaign\<close> catches it and returns
  \<open>null\<close>, and the handler answers \<open>Campaign not found with ID: c1\<close>: no draft is
  dispatched, and the campaign keeps its status and has no scheduling information.  The
  same happens on a client whose \<open>data\<close> has \<open>json\<close> as a member.  The run succeeds
  only on a client whose \<open>data\<close> has the method \<open>json()\<close>
  (\<open>handler_schedules_single_post\<close>), on which the campaign routes find no index.
\<close>

theorem campaign_is_not_found:
  "fst (handler env_runtime request_c1 (world_with (campaign_c1 [Some (mk_post ''A'')] []))) =
     SchedulerError ''Campaign not found with ID: c1''
   \<and> fst (handler env_member request_c1 (world_with (campaign_c1 [Some (mk_post ''A'')] []))) =
     SchedulerError ''Campaign not found with ID: c1''
   \<and> sent (snd (handler env_runtime request_c1
        (world_with (campaign_c1 [Some (mk_post ''A'')] [])))) = []
   \<and> stored_status (snd (handler env_runtime request_c1
        (world_with (campaign_c1 [Some (mk_post ''A'')] [])))) ''c1'' = Some writing
   \<and> stored_outcomes (snd (handler env_runtime request_c1
        (world_with (campaign_c1 [Some (mk_post ''A'')] [])))) ''c1'' = None
   \<and> kv_campaigns (world_with (campaign_c1 [Some (mk_post ''A'')] [])) ''c1'' =
       Some (campaign_c1 [Some (mk_post ''A'')] [])"
  by code_simp

end
